theory Spec2Isabelle
  imports Complex_Main "HOL-Library.AList" "HOL-Library.Multiset" "HOL-Library.Log_Nat"
begin

section \<open>Session supervisor: the simulation manager state and its handlers\<close>

text \<open>
  The manager keeps a package-level table \<^verbatim>\<open>activeSimulations\<close> from user id to a
  \<^verbatim>\<open>simulationControl\<close> holding the cancel function of that user's context.
  A context is identified here by a number; calling a cancel function puts the number of
  its context into the set \<open>cancelled\<close>. Every \<^verbatim>\<open>go SimulateUserMovement(userCtx, userID)\<close>
  is recorded in \<open>spawned\<close> with the context it was given. All handlers below run their
  table updates under \<^verbatim>\<open>activeSimulationsMutex\<close>, so each is one atomic step on the state.
  The 30 second deadline of the parent context is wall-clock time and is not part of
  the state, and neither is the goroutine that waits for it and then calls
  \<^verbatim>\<open>stopSimulationsInternal\<close>: when the deadline fires is not decided by the code.
\<close>

type_synonym ctx_id = nat

record simulationControl =
  cancelFunc :: ctx_id

record sim_state =
  activeSimulations :: "(string \<times> simulationControl) list"
  currentSimulationCtx :: "ctx_id option"
  currentUsers :: "string list option"
  spawned :: "(ctx_id \<times> string) list"
  cancelled :: "ctx_id set"
  next_ctx :: ctx_id

definition init_state :: sim_state where
  "init_state = \<lparr>activeSimulations = [], currentSimulationCtx = None, currentUsers = None,
     spawned = [], cancelled = {}, next_ctx = 0\<rparr>"

text \<open>One iteration of the loop in \<^verbatim>\<open>stopSimulationsInternal\<close>:
  \<^verbatim>\<open>control.cancelFunc(); delete(activeSimulations, userID)\<close>.\<close>

definition stop_one :: "string \<times> simulationControl \<Rightarrow> sim_state \<Rightarrow> sim_state" where
  "stop_one e s =
     s\<lparr>cancelled := insert (cancelFunc (snd e)) (cancelled s),
       activeSimulations := AList.delete (fst e) (activeSimulations s)\<rparr>"

definition stopSimulationsInternal :: "sim_state \<Rightarrow> sim_state" where
  "stopSimulationsInternal s =
     (if length (activeSimulations s) = 0 then s
      else (fold stop_one (activeSimulations s) s)\<lparr>currentUsers := None\<rparr>)"

text \<open>One iteration of the loop over \<^verbatim>\<open>req.UserIDs\<close> in \<^verbatim>\<open>handleStart\<close>: an empty id is
  skipped; otherwise a child context is made, its cancel function is stored under the
  user id (a Go map assignment: an existing entry for the id is overwritten) and the
  generator goroutine is started with that context.\<close>

definition start_user :: "string \<Rightarrow> sim_state \<Rightarrow> sim_state" where
  "start_user userID s =
     (if userID = [] then s
      else let userCtx = next_ctx s in
        s\<lparr>activeSimulations :=
             AList.update userID \<lparr>cancelFunc = userCtx\<rparr> (activeSimulations s),
          spawned := spawned s @ [(userCtx, userID)],
          next_ctx := Suc userCtx\<rparr>)"

text \<open>A request to \<^verbatim>\<open>/start\<close>: its method, and its body as the JSON decoder reads it
  (\<open>None\<close> when decoding fails, otherwise the \<^verbatim>\<open>user_ids\<close> list).\<close>

record start_request =
  Method :: string
  UserIDs :: "string list option"

definition StatusOK :: nat where "StatusOK = 200"
definition StatusBadRequest :: nat where "StatusBadRequest = 400"
definition StatusMethodNotAllowed :: nat where "StatusMethodNotAllowed = 405"

definition handleStart :: "sim_state \<Rightarrow> start_request \<Rightarrow> nat \<times> sim_state" where
  "handleStart s r =
     (if Method r \<noteq> ''POST'' then (StatusMethodNotAllowed, s)
      else let s1 = stopSimulationsInternal s in
        (case UserIDs r of
           None \<Rightarrow> (StatusBadRequest, s1)
         | Some ids \<Rightarrow>
             if length ids = 0 then (StatusBadRequest, s1)
             else let parent = next_ctx s1;
                      s2 = s1\<lparr>currentSimulationCtx := Some parent,
                              currentUsers := Some ids,
                              next_ctx := Suc parent\<rparr>
                  in (StatusOK, fold start_user ids s2)))"

definition handleStop :: "sim_state \<Rightarrow> string \<Rightarrow> nat \<times> sim_state" where
  "handleStop s method =
     (if method \<noteq> ''POST'' then (StatusMethodNotAllowed, s)
      else (StatusOK, stopSimulationsInternal s))"

text \<open>A generator is live when it was spawned and its context has not been cancelled;
  it can be cancelled through the table when some entry holds its cancel function.\<close>

definition live :: "sim_state \<Rightarrow> (ctx_id \<times> string) list" where
  "live s = filter (\<lambda>g. fst g \<notin> cancelled s) (spawned s)"

definition handles_for :: "sim_state \<Rightarrow> ctx_id \<Rightarrow> (string \<times> simulationControl) list" where
  "handles_for s c = filter (\<lambda>e. cancelFunc (snd e) = c) (activeSimulations s)"

section \<open>float64\<close>

text \<open>
  A float64 is a finite value (kept as the rational it denotes), an infinity or NaN.
  The two zeros are one value here: the code only compares, multiplies and converts to
  \<^verbatim>\<open>int\<close>, and none of these tells them apart. Arithmetic is IEEE 754 binary64 with
  the default rounding: the exact result is rounded to the nearest representable value,
  ties to the even significand, and a result of magnitude \<open>2^1024\<close> or more after
  rounding is an infinity.
\<close>

datatype float64 = Finite rat | PosInf | NegInf | NaN

text \<open>\<open>ilog2 a\<close> is the floor of the binary logarithm of a positive rational.\<close>

definition ilog2 :: "rat \<Rightarrow> int" where
  "ilog2 a =
     (if 1 \<le> a then bitlen \<lfloor>a\<rfloor> - 1
      else let k = bitlen \<lfloor>1 / a\<rfloor> - 1 in
        if a * 2 ^ nat k = 1 then - k else - k - 1)"

definition round_half_even :: "rat \<Rightarrow> int" where
  "round_half_even m =
     (let f = \<lfloor>m\<rfloor>; r = m - of_int f in
      if r < 1 / 2 then f else if 1 / 2 < r then f + 1
      else if even f then f else f + 1)"

text \<open>Rounding a positive rational to 53 significant bits; below \<open>2^-1022\<close> the
  spacing stays that of the subnormal numbers, \<open>2^-1074\<close>.\<close>

definition round_pos :: "rat \<Rightarrow> rat" where
  "round_pos a =
     (let e = max (ilog2 a) (- 1022); u = 2 powi (e - 52) in
      of_int (round_half_even (a / u)) * u)"

definition round64 :: "rat \<Rightarrow> float64" where
  "round64 x =
     (if x = 0 then Finite 0
      else let m = round_pos \<bar>x\<bar> in
        if 2 ^ 1024 \<le> m then (if 0 < x then PosInf else NegInf)
        else Finite (if 0 < x then m else - m))"

definition is_float64 :: "rat \<Rightarrow> bool" where
  "is_float64 q = (round64 q = Finite q)"

fun f64_lt :: "float64 \<Rightarrow> float64 \<Rightarrow> bool" where
  "f64_lt NaN _ = False"
| "f64_lt _ NaN = False"
| "f64_lt (Finite a) (Finite b) = (a < b)"
| "f64_lt NegInf NegInf = False"
| "f64_lt NegInf _ = True"
| "f64_lt _ NegInf = False"
| "f64_lt PosInf _ = False"
| "f64_lt _ PosInf = True"

definition f64_gt :: "float64 \<Rightarrow> float64 \<Rightarrow> bool" where
  "f64_gt a b = f64_lt b a"

fun f64_sign :: "float64 \<Rightarrow> int" where
  "f64_sign (Finite a) = (if a < 0 then - 1 else if a = 0 then 0 else 1)"
| "f64_sign PosInf = 1"
| "f64_sign NegInf = - 1"
| "f64_sign NaN = 0"

fun f64_mul :: "float64 \<Rightarrow> float64 \<Rightarrow> float64" where
  "f64_mul NaN _ = NaN"
| "f64_mul _ NaN = NaN"
| "f64_mul (Finite a) (Finite b) = round64 (a * b)"
| "f64_mul x y =
     (if f64_sign x * f64_sign y = 0 then NaN
      else if 0 < f64_sign x * f64_sign y then PosInf else NegInf)"

text \<open>The conversion \<^verbatim>\<open>float64(n)\<close> of an \<^verbatim>\<open>int\<close>.\<close>

definition float64_of_int :: "int \<Rightarrow> float64" where
  "float64_of_int n = round64 (of_int n)"

text \<open>The conversion \<^verbatim>\<open>int(x)\<close> of a float64 to the 64-bit \<^verbatim>\<open>int\<close>: the fraction is
  discarded (truncation towards zero). When the value does not fit, or is an infinity
  or NaN, the Go specification leaves the result to the implementation: it is
  \<open>indef x\<close>, a parameter.\<close>

definition trunc :: "rat \<Rightarrow> int" where
  "trunc q = (if 0 \<le> q then \<lfloor>q\<rfloor> else \<lceil>q\<rceil>)"

fun int_of_float64 :: "(float64 \<Rightarrow> int) \<Rightarrow> float64 \<Rightarrow> int" where
  "int_of_float64 indef (Finite q) =
     (if - (2 ^ 63) \<le> trunc q \<and> trunc q < 2 ^ 63 then trunc q else indef (Finite q))"
| "int_of_float64 indef x = indef x"

section \<open>Data model and the store\<close>

text \<open>A \<^verbatim>\<open>time.Time\<close> is the instant it denotes, in nanoseconds.\<close>

type_synonym time = int

definition Before :: "time \<Rightarrow> time \<Rightarrow> bool" where
  "Before t u = (t < u)"

record LocationData =
  DeltaX :: float64
  DeltaY :: float64
  Timestamp :: time

definition zero_LocationData :: LocationData where
  "zero_LocationData = \<lparr>DeltaX = Finite 0, DeltaY = Finite 0, Timestamp = 0\<rparr>"

text \<open>
  What the code uses of the Go runtime and standard library without defining it:
  \<^verbatim>\<open>json.Marshal\<close> and \<^verbatim>\<open>json.Unmarshal\<close> on a \<^verbatim>\<open>LocationData\<close> (\<open>None\<close> is a non-nil
  error), \<^verbatim>\<open>sort.Slice\<close> (not stable: the order it gives to elements that compare equal
  is its own), the result of an out-of-range float to int conversion, and
  \<^verbatim>\<open>math.Cos\<close>, \<^verbatim>\<open>math.Sin\<close>.
\<close>

record go_runtime =
  json_Marshal :: "LocationData \<Rightarrow> string option"
  json_Unmarshal :: "string \<Rightarrow> LocationData option"
  sort_Slice :: "(LocationData \<Rightarrow> LocationData \<Rightarrow> bool) \<Rightarrow> LocationData list \<Rightarrow> LocationData list"
  int_indef :: "float64 \<Rightarrow> int"
  math_Cos :: "float64 \<Rightarrow> float64"
  math_Sin :: "float64 \<Rightarrow> float64"

text \<open>
  The unitdb handle. unitdb is an external library; the store is the append and
  read-all store the specification describes: \<open>messages\<close> are the committed
  (topic, payload) entries in commit order, \<open>reads\<close> are the topics queried so far.
  Its failures are fields: \<open>get_err\<close> is the error \<^verbatim>\<open>db.Get\<close> returns, \<open>put_err\<close>
  the error \<^verbatim>\<open>PutEntry\<close> returns for a payload, \<open>commit_err\<close> the error of the batch
  commit.
\<close>

record unitdb =
  messages :: "(string \<times> string) list"
  reads :: "string list"
  get_err :: "string option"
  put_err :: "string \<Rightarrow> string option"
  commit_err :: "string option"

datatype error =
    ErrNotInitialized
  | ErrGet string string
  | ErrStore string

text \<open>\<^verbatim>\<open>db.Get(query)\<close>: the payloads stored under the topic of the query.\<close>

definition db_Get :: "unitdb \<Rightarrow> string \<Rightarrow> (string list \<times> string option) \<times> unitdb" where
  "db_Get d topic =
     ((case get_err d of
         Some e \<Rightarrow> ([], Some e)
       | None \<Rightarrow> (map snd (filter (\<lambda>m. fst m = topic) (messages d)), None)),
      d\<lparr>reads := reads d @ [topic]\<rparr>)"

record entry =
  Topic :: string
  Payload :: string

text \<open>\<^verbatim>\<open>db.Batch(fn)\<close> runs \<open>fn\<close> on a fresh batch; an error of \<open>fn\<close> aborts the
  batch and is returned, otherwise the batch is committed and the error of the commit
  is returned. \<^verbatim>\<open>b.PutEntry(entry)\<close> adds the entry to the batch unless it fails.\<close>

definition PutEntry :: "unitdb \<Rightarrow> (string \<times> string) list \<Rightarrow> entry
    \<Rightarrow> string option \<times> (string \<times> string) list" where
  "PutEntry d b e =
     (case put_err d (Payload e) of
        Some err \<Rightarrow> (Some err, b)
      | None \<Rightarrow> (None, b @ [(Topic e, Payload e)]))"

definition Batch :: "unitdb \<Rightarrow> ((string \<times> string) list \<Rightarrow> error option \<times> (string \<times> string) list)
    \<Rightarrow> error option \<times> unitdb" where
  "Batch d fn =
     (case fn [] of
        (Some err, b) \<Rightarrow> (Some err, d)
      | (None, b) \<Rightarrow>
          (case commit_err d of
             Some e \<Rightarrow> (Some (ErrStore e), d)
           | None \<Rightarrow> (None, d\<lparr>messages := messages d @ b\<rparr>)))"

section \<open>database.go\<close>

definition GetTopicForUser :: "string \<Rightarrow> string" where
  "GetTopicForUser userID = ''user.'' @ userID @ ''.location''"

text \<open>The body of the loop over \<^verbatim>\<open>dataPoints\<close> in the batch callback of
  \<^verbatim>\<open>WriteLocationData\<close>; the state is the reused entry and the batch.\<close>

definition write_step :: "go_runtime \<Rightarrow> unitdb \<Rightarrow> LocationData
    \<Rightarrow> entry \<times> (string \<times> string) list \<Rightarrow> entry \<times> (string \<times> string) list" where
  "write_step rt d data st =
     (case json_Marshal rt data of
        None \<Rightarrow> st
      | Some payload \<Rightarrow>
          let entry' = (fst st)\<lparr>Payload := payload\<rparr> in
          (entry', snd (PutEntry d (snd st) entry')))"

definition WriteLocationData :: "go_runtime \<Rightarrow> unitdb option \<Rightarrow> string \<Rightarrow> LocationData list
    \<Rightarrow> error option \<times> unitdb option" where
  "WriteLocationData rt db userID dataPoints =
     (case db of
        None \<Rightarrow> (Some ErrNotInitialized, None)
      | Some d \<Rightarrow>
          let topic = GetTopicForUser userID;
              r = Batch d (\<lambda>b.
                    let entry0 = \<lparr>Topic = topic, Payload = []\<rparr> in
                    (None, snd (fold (write_step rt d) dataPoints (entry0, b))))
          in (fst r, Some (snd r)))"

text \<open>The decoding loop of \<^verbatim>\<open>ReadLocationData\<close>: a message that does not decode is
  skipped.\<close>

fun decode_all :: "go_runtime \<Rightarrow> string list \<Rightarrow> LocationData list \<Rightarrow> LocationData list" where
  "decode_all rt [] locationDataList = locationDataList"
| "decode_all rt (rawMsg # rawMessages) locationDataList =
     (case json_Unmarshal rt rawMsg of
        None \<Rightarrow> decode_all rt rawMessages locationDataList
      | Some data \<Rightarrow> decode_all rt rawMessages (locationDataList @ [data]))"

definition less_by_Timestamp :: "LocationData \<Rightarrow> LocationData \<Rightarrow> bool" where
  "less_by_Timestamp a b = Before (Timestamp a) (Timestamp b)"

text \<open>The expression \<^verbatim>\<open>int(percent * float64(totalEntries))\<close>, which the code
  evaluates once for each end of the window.\<close>

definition percent_index :: "go_runtime \<Rightarrow> float64 \<Rightarrow> int \<Rightarrow> int" where
  "percent_index rt percent totalEntries =
     int_of_float64 (int_indef rt) (f64_mul percent (float64_of_int totalEntries))"

text \<open>The windowing arithmetic of \<^verbatim>\<open>ReadLocationData\<close>: the two clamped indices.\<close>

definition window_indices :: "go_runtime \<Rightarrow> float64 \<Rightarrow> float64 \<Rightarrow> int \<Rightarrow> int \<times> int" where
  "window_indices rt minPercent maxPercent totalEntries =
     (let minPercent1 = (if f64_lt minPercent (Finite 0) then Finite 0 else minPercent);
          maxPercent1 = (if f64_gt maxPercent (Finite 1) then Finite 1 else maxPercent);
          minPercent2 = (if f64_gt minPercent1 maxPercent1 then maxPercent1 else minPercent1);
          startIndex = percent_index rt minPercent2 totalEntries;
          endIndex = percent_index rt maxPercent1 totalEntries;
          startIndex1 = (if startIndex < 0 then 0 else startIndex);
          endIndex1 = (if endIndex > totalEntries then totalEntries else endIndex);
          startIndex2 = (if startIndex1 > endIndex1 then endIndex1 else startIndex1)
      in (startIndex2, endIndex1))"

text \<open>A Go function either returns or panics.\<close>

datatype 'a outcome = Returns 'a | Panics

text \<open>The slice expression \<^verbatim>\<open>s[lo:hi]\<close> on a slice of capacity \<open>c\<close> whose backing
  array holds zero values beyond its length: a run-time panic unless
  \<open>0 \<le> lo \<le> hi \<le> c\<close>.\<close>

definition go_slice :: "LocationData list \<Rightarrow> nat \<Rightarrow> int \<Rightarrow> int \<Rightarrow> LocationData list outcome" where
  "go_slice s c lo hi =
     (if 0 \<le> lo \<and> lo \<le> hi \<and> hi \<le> int c
      then Returns (take (nat (hi - lo))
             (drop (nat lo) (s @ replicate (c - length s) zero_LocationData)))
      else Panics)"

text \<open>\<^verbatim>\<open>ReadLocationData\<close> with the percentage window. The result is the pair Go
  returns (the slice, \<open>None\<close> for nil, and the error) or a panic, together with the
  handle after the call.\<close>

definition ReadLocationData :: "go_runtime \<Rightarrow> unitdb option \<Rightarrow> string \<Rightarrow> float64 \<Rightarrow> float64
    \<Rightarrow> (LocationData list option \<times> error option) outcome \<times> unitdb option" where
  "ReadLocationData rt db userID minPercent maxPercent =
     (case db of
        None \<Rightarrow> (Returns (None, Some ErrNotInitialized), None)
      | Some d \<Rightarrow>
          let topic = GetTopicForUser userID;
              g = db_Get d topic;
              rawMessages = fst (fst g)
          in (case snd (fst g) of
                Some err \<Rightarrow> (Returns (None, Some (ErrGet userID err)), Some (snd g))
              | None \<Rightarrow>
                  if length rawMessages = 0 then (Returns (Some [], None), Some (snd g))
                  else
                    let locationDataList =
                          sort_Slice rt less_by_Timestamp (decode_all rt rawMessages []);
                        totalEntries = int (length locationDataList)
                    in if totalEntries = 0 then (Returns (Some [], None), Some (snd g))
                       else
                         let w = window_indices rt minPercent maxPercent totalEntries
                         in (case go_slice locationDataList (length rawMessages) (fst w) (snd w) of
                               Panics \<Rightarrow> (Panics, Some (snd g))
                             | Returns r \<Rightarrow> (Returns (Some r, None), Some (snd g)))))"

text \<open>The older \<^verbatim>\<open>ReadLocationData\<close> of \<^verbatim>\<open>database.go\<close>: every decoded message, in
  store order.\<close>

definition ReadLocationData_all :: "go_runtime \<Rightarrow> unitdb option \<Rightarrow> string
    \<Rightarrow> (LocationData list option \<times> error option) \<times> unitdb option" where
  "ReadLocationData_all rt db userID =
     (case db of
        None \<Rightarrow> ((None, Some ErrNotInitialized), None)
      | Some d \<Rightarrow>
          let topic = GetTopicForUser userID;
              g = db_Get d topic;
              rawMessages = fst (fst g)
          in (case snd (fst g) of
                Some err \<Rightarrow> ((None, Some (ErrGet userID err)), Some (snd g))
              | None \<Rightarrow>
                  if length rawMessages = 0 then ((Some [], None), Some (snd g))
                  else ((Some (decode_all rt rawMessages []), None), Some (snd g))))"

text \<open>Names for what the statements below talk about: the payloads stored under the
  key of a user, the decoded and sorted samples of a user, and the payloads of a batch
  that reach the store (those that encode and that \<^verbatim>\<open>PutEntry\<close> accepts).\<close>

definition stored_under :: "unitdb \<Rightarrow> string \<Rightarrow> string list" where
  "stored_under d u = map snd (filter (\<lambda>m. fst m = GetTopicForUser u) (messages d))"

definition decoded_sorted :: "go_runtime \<Rightarrow> unitdb \<Rightarrow> string \<Rightarrow> LocationData list" where
  "decoded_sorted rt d u =
     sort_Slice rt less_by_Timestamp (List.map_filter (json_Unmarshal rt) (stored_under d u))"

definition persisted :: "go_runtime \<Rightarrow> unitdb \<Rightarrow> LocationData list \<Rightarrow> string list" where
  "persisted rt d pts = filter (\<lambda>p. put_err d p = None) (List.map_filter (json_Marshal rt) pts)"

section \<open>simulator.go\<close>

text \<open>The untyped constants of the file, converted to float64 where the code uses them
  in float64 arithmetic. \<^verbatim>\<open>math.Pi\<close> is the constant of the standard library.\<close>

definition maxDistancePerStep :: float64 where
  "maxDistancePerStep = round64 (4 / 1000)"

definition batchSize :: nat where
  "batchSize = 100"

definition math_Pi :: float64 where
  "math_Pi = round64
     (314159265358979323846264338327950288419716939937510582097494459 / 10 ^ 62)"

text \<open>A \<^verbatim>\<open>rand.Rand\<close>: the values its successive \<^verbatim>\<open>Float64\<close> calls return, and how
  many have been drawn. \<^verbatim>\<open>Float64\<close> is documented to return a number in the half-open
  interval \<open>[0.0, 1.0)\<close>.\<close>

record Rand =
  draws :: "nat \<Rightarrow> float64"
  used :: nat

definition rng_Float64 :: "Rand \<Rightarrow> float64 \<times> Rand" where
  "rng_Float64 r = (draws r (used r), r\<lparr>used := Suc (used r)\<rparr>)"

definition generateMovement :: "go_runtime \<Rightarrow> Rand \<Rightarrow> (float64 \<times> float64) \<times> Rand" where
  "generateMovement rt r =
     (let (u1, r1) = rng_Float64 r;
          angle = f64_mul (f64_mul u1 (Finite 2)) math_Pi;
          (u2, r2) = rng_Float64 r1;
          magnitude = f64_mul u2 maxDistancePerStep;
          dx = f64_mul magnitude (math_Cos rt angle);
          dy = f64_mul magnitude (math_Sin rt angle)
      in ((dx, dy), r2))"

text \<open>The state of one generator goroutine, and one iteration of its loop. Which case
  of the \<^verbatim>\<open>select\<close> is taken, and what \<^verbatim>\<open>time.Now()\<close> returns, are inputs of the
  iteration; \<open>db_handle\<close> is the package-level \<^verbatim>\<open>db\<close>. A failed write is logged and
  otherwise ignored. The ticker itself is wall-clock time and is not part of the state.\<close>

record gen_state =
  dataBuffer :: "LocationData list"
  rng :: Rand
  db_handle :: "unitdb option"
  returned :: bool

datatype select_case = CtxDone | TickerC | Default

definition flush :: "go_runtime \<Rightarrow> string \<Rightarrow> gen_state \<Rightarrow> gen_state" where
  "flush rt userID st =
     st\<lparr>db_handle := snd (WriteLocationData rt (db_handle st) userID (dataBuffer st))\<rparr>"

definition SimulateUserMovement_step :: "go_runtime \<Rightarrow> string \<Rightarrow> select_case \<Rightarrow> time
    \<Rightarrow> gen_state \<Rightarrow> gen_state" where
  "SimulateUserMovement_step rt userID c now st =
     (case c of
        CtxDone \<Rightarrow>
          (if length (dataBuffer st) > 0 then flush rt userID st else st)\<lparr>returned := True\<rparr>
      | TickerC \<Rightarrow>
          if length (dataBuffer st) > 0 then (flush rt userID st)\<lparr>dataBuffer := []\<rparr> else st
      | Default \<Rightarrow>
          let timestamp = now;
              g = generateMovement rt (rng st);
              dataPoint = \<lparr>DeltaX = fst (fst g), DeltaY = snd (fst g), Timestamp = timestamp\<rparr>;
              st1 = st\<lparr>dataBuffer := dataBuffer st @ [dataPoint], rng := snd g\<rparr>
          in if length (dataBuffer st1) \<ge> batchSize
             then (flush rt userID st1)\<lparr>dataBuffer := []\<rparr>
             else st1)"

section \<open>Contracts of the library functions, and a small runtime to evaluate with\<close>

text \<open>What \<^verbatim>\<open>sort.Slice\<close> promises when \<open>less\<close> compares timestamps: the result is a
  permutation of the input in which no element is followed by a strictly earlier one.\<close>

definition sorts_by_Timestamp :: "go_runtime \<Rightarrow> bool" where
  "sorts_by_Timestamp rt =
     (\<forall>xs. mset (sort_Slice rt less_by_Timestamp xs) = mset xs
         \<and> sorted_wrt (\<lambda>a b. \<not> less_by_Timestamp b a) (sort_Slice rt less_by_Timestamp xs))"

fun insert_by :: "('a \<Rightarrow> 'a \<Rightarrow> bool) \<Rightarrow> 'a \<Rightarrow> 'a list \<Rightarrow> 'a list" where
  "insert_by lt x [] = [x]"
| "insert_by lt x (y # ys) = (if lt x y then x # y # ys else y # insert_by lt x ys)"

fun insertion_sort :: "('a \<Rightarrow> 'a \<Rightarrow> bool) \<Rightarrow> 'a list \<Rightarrow> 'a list" where
  "insertion_sort lt [] = []"
| "insertion_sort lt (x # xs) = insert_by lt x (insertion_sort lt xs)"

text \<open>A stand-in codec: a payload of length \<open>n\<close> that starts with the letter \<open>t\<close>
  decodes to a sample stamped \<open>n\<close>, any other payload does not decode; a sample whose
  \<open>DeltaX\<close> is NaN does not encode (as \<^verbatim>\<open>json.Marshal\<close> rejects NaN).\<close>

definition toy_Unmarshal :: "string \<Rightarrow> LocationData option" where
  "toy_Unmarshal s =
     (case s of
        [] \<Rightarrow> None
      | c # _ \<Rightarrow> if c = CHR ''t'' then
                   Some \<lparr>DeltaX = Finite 0, DeltaY = Finite 0, Timestamp = int (length s)\<rparr>
                 else None)"

definition toy_Marshal :: "LocationData \<Rightarrow> string option" where
  "toy_Marshal data =
     (if DeltaX data = NaN then None else Some (replicate (nat (Timestamp data)) CHR ''t''))"

definition toy_rt :: go_runtime where
  "toy_rt = \<lparr>json_Marshal = toy_Marshal, json_Unmarshal = toy_Unmarshal,
     sort_Slice = insertion_sort, int_indef = (\<lambda>x. - (2 ^ 63)),
     math_Cos = (\<lambda>x. Finite 1), math_Sin = (\<lambda>x. Finite 0)\<rparr>"

definition sample :: "int \<Rightarrow> LocationData" where
  "sample t = \<lparr>DeltaX = Finite 0, DeltaY = Finite 0, Timestamp = t\<rparr>"

definition store_of :: "(string \<times> string) list \<Rightarrow> unitdb" where
  "store_of ms = \<lparr>messages = ms, reads = [], get_err = None, put_err = (\<lambda>p. None),
     commit_err = None\<rparr>"

text \<open>Three samples of user \<open>u1\<close>, stored out of order, with one corrupt record and a
  record of another user among them.\<close>

definition store3 :: unitdb where
  "store3 = store_of [(''user.u1.location'', ''ttt''), (''user.u1.location'', ''x''),
     (''user.u2.location'', ''tttt''), (''user.u1.location'', ''t''),
     (''user.u1.location'', ''tt'')]"

text \<open>A generator whose random source always draws one half.\<close>

definition half_rng :: Rand where
  "half_rng = \<lparr>draws = (\<lambda>i. Finite (1 / 2)), used = 0\<rparr>"

definition fresh_generator :: gen_state where
  "fresh_generator = \<lparr>dataBuffer = [], rng = half_rng, db_handle = Some store3, returned = False\<rparr>"

text \<open>Start requests, and the state after starting two users.\<close>

definition post_start :: "string list \<Rightarrow> start_request" where
  "post_start ids = \<lparr>Method = ''POST'', UserIDs = Some ids\<rparr>"

definition two_running :: sim_state where
  "two_running = snd (handleStart init_state (post_start [''a'', ''b'']))"

text \<open>The float64 nearest to one third.\<close>

definition third64 :: rat where
  "third64 = 6004799503160661 / 18014398509481984"

section \<open>Stop\<close>

lemma fold_stop_one_table:
  "activeSimulations (fold stop_one xs s) =
     filter (\<lambda>e. fst e \<notin> fst ` set xs) (activeSimulations s)"
proof (induction xs arbitrary: s)
  case Nil
  show ?case by simp
next
  case (Cons x xs)
  have "activeSimulations (stop_one x s) = filter (\<lambda>e. fst e \<noteq> fst x) (activeSimulations s)"
    by (auto simp: stop_one_def AList.delete_eq case_prod_unfold intro!: filter_cong)
  with Cons.IH [of "stop_one x s"] show ?case
    by (auto intro!: filter_cong)
qed

lemma fold_stop_one_cancelled:
  "cancelled (fold stop_one xs s) = cancelled s \<union> (cancelFunc \<circ> snd) ` set xs"
  by (induction xs arbitrary: s) (auto simp: stop_one_def)

lemma fold_stop_one_rest:
  "spawned (fold stop_one xs s) = spawned s \<and> next_ctx (fold stop_one xs s) = next_ctx s
   \<and> currentSimulationCtx (fold stop_one xs s) = currentSimulationCtx s"
  by (induction xs arbitrary: s) (auto simp: stop_one_def)

lemma stop_table_empty: "activeSimulations (stopSimulationsInternal s) = []"
proof (cases "activeSimulations s = []")
  case True
  then show ?thesis by (simp add: stopSimulationsInternal_def)
next
  case False
  have "filter (\<lambda>e. fst e \<notin> fst ` set (activeSimulations s)) (activeSimulations s) = []"
    by (simp add: filter_empty_conv)
  with False show ?thesis
    by (simp add: stopSimulationsInternal_def fold_stop_one_table)
qed

lemma stop_cancelled:
  "cancelled (stopSimulationsInternal s) =
     cancelled s \<union> (cancelFunc \<circ> snd) ` set (activeSimulations s)"
  by (simp add: stopSimulationsInternal_def fold_stop_one_cancelled)

lemma stop_rest:
  "spawned (stopSimulationsInternal s) = spawned s
   \<and> next_ctx (stopSimulationsInternal s) = next_ctx s"
  by (simp add: stopSimulationsInternal_def fold_stop_one_rest)

text \<open>
  Claim C5. Stop is idempotent and total: with an empty table it changes nothing;
  stopping twice is the same as stopping once; after every stop the table is empty and
  the cancel function of every entry that was registered has been called; and the
  \<^verbatim>\<open>/stop\<close> handler answers 200 to every POST.
\<close>

theorem stop_idempotent_total:
  "(activeSimulations s = [] \<longrightarrow> stopSimulationsInternal s = s)
   \<and> stopSimulationsInternal (stopSimulationsInternal s) = stopSimulationsInternal s
   \<and> activeSimulations (stopSimulationsInternal s) = []
   \<and> (\<forall>e \<in> set (activeSimulations s). cancelFunc (snd e) \<in> cancelled (stopSimulationsInternal s))
   \<and> handleStop s ''POST'' = (StatusOK, stopSimulationsInternal s)"
proof -
  have a: "activeSimulations s = [] \<longrightarrow> stopSimulationsInternal s = s"
    by (simp add: stopSimulationsInternal_def)
  have b: "stopSimulationsInternal (stopSimulationsInternal s) = stopSimulationsInternal s"
    using stop_table_empty [of s] by (simp add: stopSimulationsInternal_def [of "stopSimulationsInternal s"])
  have c: "\<forall>e \<in> set (activeSimulations s). cancelFunc (snd e) \<in> cancelled (stopSimulationsInternal s)"
    by (simp add: stop_cancelled)
  have d: "handleStop s ''POST'' = (StatusOK, stopSimulationsInternal s)"
    by (simp add: handleStop_def)
  from a b c d stop_table_empty [of s] show ?thesis by blast
qed

theorem stop_idempotent_total_witness:
  "activeSimulations init_state = [] \<and> stopSimulationsInternal init_state = init_state
   \<and> (''a'', \<lparr>cancelFunc = 1\<rparr>) \<in> set (activeSimulations two_running)
   \<and> 1 \<in> cancelled (stopSimulationsInternal two_running)
   \<and> activeSimulations (stopSimulationsInternal two_running) = []"
  using stop_idempotent_total [of init_state] stop_idempotent_total [of two_running]
  by (simp add: two_running_def post_start_def handleStart_def init_state_def
      stopSimulationsInternal_def start_user_def StatusOK_def)

section \<open>Start\<close>

lemma fold_start_user_spawned:
  "map snd (spawned (fold start_user ids s)) = map snd (spawned s) @ filter (\<lambda>u. u \<noteq> []) ids"
  by (induction ids arbitrary: s) (auto simp: start_user_def Let_def)

text \<open>
  Claim C4, as stated, fails: a start request whose ids are all empty strings passes the
  only validation there is (the length of the raw list), spawns no generator and is
  answered 200.
\<close>

theorem start_only_empty_ids_succeeds:
  "fst (handleStart init_state (post_start [''''])) = StatusOK
   \<and> filter (\<lambda>u. u \<noteq> []) [''''] = []
   \<and> spawned (snd (handleStart init_state (post_start ['''']))) = []"
  by (simp add: post_start_def handleStart_def init_state_def
      stopSimulationsInternal_def start_user_def StatusOK_def)

text \<open>
  Claim C4, amended. For a POST whose body decodes to the id list \<open>ids\<close>, Start answers
  with the validation error exactly when the raw list is empty (before any filtering);
  otherwise it succeeds, and the generators it spawns are exactly those of the non-empty
  ids, in request order: empty-string ids are skipped and are not an error.
\<close>

theorem start_validation_on_raw_list:
  assumes "Method r = ''POST''" and "UserIDs r = Some ids"
  shows "(fst (handleStart s r) = StatusBadRequest \<longleftrightarrow> ids = [])
   \<and> (ids \<noteq> [] \<longrightarrow> fst (handleStart s r) = StatusOK)
   \<and> map snd (spawned (snd (handleStart s r))) = map snd (spawned s) @ filter (\<lambda>u. u \<noteq> []) ids"
proof (cases "ids = []")
  case True
  with assms show ?thesis
    by (simp add: handleStart_def stop_rest)
next
  case False
  with assms show ?thesis
    by (simp add: handleStart_def Let_def fold_start_user_spawned stop_rest
        StatusOK_def StatusBadRequest_def)
qed

theorem start_validation_on_raw_list_witness:
  "Method (post_start [''a'', '''', ''b'']) = ''POST''
   \<and> UserIDs (post_start [''a'', '''', ''b'']) = Some [''a'', '''', ''b'']
   \<and> fst (handleStart init_state (post_start [''a'', '''', ''b''])) = StatusOK
   \<and> map snd (spawned (snd (handleStart init_state (post_start [''a'', '''', ''b''])))) = [''a'', ''b'']"
  using start_validation_on_raw_list [of "post_start [''a'', '''', ''b'']" "[''a'', '''', ''b'']" init_state]
  by (simp add: post_start_def init_state_def)

text \<open>For an id list without duplicates every generator a Start spawns is registered
  in the table under its user id, and a following Stop cancels it.\<close>

lemma start_user_table_other:
  "u \<noteq> x \<Longrightarrow> map_of (activeSimulations (start_user x s)) u = map_of (activeSimulations s) u"
  by (simp add: start_user_def Let_def update_conv')

lemma fold_start_user_table_other:
  "u \<notin> set xs \<Longrightarrow>
   map_of (activeSimulations (fold start_user xs s)) u = map_of (activeSimulations s) u"
  by (induction xs arbitrary: s) (auto simp: start_user_table_other)

lemma fold_start_user_registers:
  assumes "distinct ids" "(c, u) \<in> set (spawned (fold start_user ids s))" "(c, u) \<notin> set (spawned s)"
  shows "map_of (activeSimulations (fold start_user ids s)) u = Some \<lparr>cancelFunc = c\<rparr>"
  using assms
proof (induction ids arbitrary: s)
  case Nil
  then show ?case by simp
next
  case (Cons x xs)
  show ?case
  proof (cases "(c, u) \<in> set (spawned (start_user x s))")
    case True
    with Cons.prems(3) have e: "x \<noteq> []" "u = x" "c = next_ctx s"
      by (auto simp: start_user_def Let_def split: if_splits)
    have "u \<notin> set xs" using Cons.prems(1) e by simp
    then have "map_of (activeSimulations (fold start_user xs (start_user x s))) u
        = map_of (activeSimulations (start_user x s)) u"
      by (rule fold_start_user_table_other)
    also have "\<dots> = Some \<lparr>cancelFunc = c\<rparr>"
      using e by (simp add: start_user_def Let_def update_conv')
    finally show ?thesis by simp
  next
    case False
    with Cons.IH [of "start_user x s"] Cons.prems show ?thesis by simp
  qed
qed

lemma start_distinct_ids_all_cancelled_by_stop:
  assumes "distinct ids"
    and "(c, u) \<in> set (spawned (snd (handleStart s (post_start ids))))"
    and "(c, u) \<notin> set (spawned s)"
  shows "map_of (activeSimulations (snd (handleStart s (post_start ids)))) u = Some \<lparr>cancelFunc = c\<rparr>
    \<and> (c, u) \<notin> set (live (stopSimulationsInternal (snd (handleStart s (post_start ids)))))"
proof -
  define s2 where "s2 = (stopSimulationsInternal s)\<lparr>currentSimulationCtx := Some (next_ctx (stopSimulationsInternal s)),
      currentUsers := Some ids, next_ctx := Suc (next_ctx (stopSimulationsInternal s))\<rparr>"
  have ne: "ids \<noteq> []" using assms(2,3) by (auto simp: handleStart_def post_start_def stop_rest)
  then have h: "snd (handleStart s (post_start ids)) = fold start_user ids s2"
    by (simp add: handleStart_def post_start_def Let_def s2_def)
  have sp: "spawned s2 = spawned s" by (simp add: s2_def stop_rest)
  from fold_start_user_registers [OF assms(1), of c u s2] assms(2,3)
  have m: "map_of (activeSimulations (fold start_user ids s2)) u = Some \<lparr>cancelFunc = c\<rparr>"
    by (simp add: h sp)
  then have "(u, \<lparr>cancelFunc = c\<rparr>) \<in> set (activeSimulations (fold start_user ids s2))"
    by (rule map_of_SomeD)
  then have "c \<in> cancelled (stopSimulationsInternal (fold start_user ids s2))"
    by (force simp: stop_cancelled)
  with m show ?thesis by (simp add: h live_def)
qed

text \<open>
  Claim C3 at the request \<^verbatim>\<open>{"user_ids": ["a", "a"]}\<close>: two generators are spawned, the
  second map assignment overwrites the first cancel function, so the first generator has
  no entry in the table, and it is still live after Stop has emptied the table.
\<close>

theorem start_duplicate_ids_leaks_generator:
  "live (snd (handleStart init_state (post_start [''a'', ''a'']))) = [(1, ''a''), (2, ''a'')]
   \<and> activeSimulations (snd (handleStart init_state (post_start [''a'', ''a''])))
       = [(''a'', \<lparr>cancelFunc = 2\<rparr>)]
   \<and> handles_for (snd (handleStart init_state (post_start [''a'', ''a'']))) 1 = []
   \<and> live (stopSimulationsInternal (snd (handleStart init_state (post_start [''a'', ''a'']))))
       = [(1, ''a'')]
   \<and> activeSimulations (stopSimulationsInternal (snd (handleStart init_state (post_start [''a'', ''a'']))))
       = []"
  by (simp add: post_start_def handleStart_def init_state_def live_def handles_for_def
      stopSimulationsInternal_def start_user_def stop_one_def)

section \<open>Rounding to float64\<close>

lemma bitlen_numeral: "bitlen (numeral n) = bitlen (numeral n div 2) + 1"
  by (subst compute_bitlen) simp

lemma bitlen_one: "bitlen 1 = 1"
  by (subst compute_bitlen) simp

lemma floor_rat_numeral: "\<lfloor>numeral a / numeral b :: rat\<rfloor> = numeral a div numeral b"
  by (metis floor_divide_of_int_eq of_int_numeral)

lemma floor_rat_neg_numeral: "\<lfloor>- (numeral a / numeral b) :: rat\<rfloor> = - numeral a div numeral b"
  by (metis divide_minus_left floor_divide_of_int_eq of_int_neg_numeral of_int_numeral)

lemmas f64_eval = round64_def round_pos_def round_half_even_def ilog2_def Let_def
  bitlen_numeral bitlen_one floor_rat_numeral floor_rat_neg_numeral

lemma rhe_of_int: "round_half_even (of_int k) = k"
  by (simp add: round_half_even_def)

lemma rhe_bounds: "\<lfloor>m\<rfloor> \<le> round_half_even m \<and> round_half_even m \<le> \<lfloor>m\<rfloor> + 1"
  by (simp add: round_half_even_def Let_def)

lemma rhe_mono:
  assumes "x \<le> y"
  shows "round_half_even x \<le> round_half_even y"
proof (cases "\<lfloor>x\<rfloor> = \<lfloor>y\<rfloor>")
  case True
  with assms show ?thesis
    by (auto simp: round_half_even_def Let_def)
next
  case False
  with assms have "\<lfloor>x\<rfloor> + 1 \<le> \<lfloor>y\<rfloor>"
    using floor_mono [of x y] by linarith
  with rhe_bounds [of x] rhe_bounds [of y] show ?thesis by linarith
qed

lemma p2_Suc: "(2::rat) powi (e + 1) = 2 * 2 powi e"
  by (simp add: power_int_add)

lemma p2_mono: "e \<le> e' \<Longrightarrow> (2::rat) powi e \<le> 2 powi e'"
  by (rule power_int_increasing) simp_all

lemma p2_less_imp: "(2::rat) powi e < 2 powi e' \<Longrightarrow> e < e'"
  using p2_mono [of e' e] by (cases "e < e'") auto

lemma ilog2_bounds:
  assumes "0 < a"
  shows "2 powi ilog2 a \<le> a \<and> a < 2 powi (ilog2 a + 1)"
proof (cases "1 \<le> a")
  case True
  define m where "m = \<lfloor>a\<rfloor>"
  have m: "0 < m" using True by (simp add: m_def)
  from bitlen_bounds [OF m] have b: "2 ^ nat (bitlen m - 1) \<le> m" "m < 2 ^ nat (bitlen m)"
    by auto
  have bl: "1 \<le> bitlen m" using m by (simp add: bitlen_alt_def)
  have i: "ilog2 a = bitlen m - 1" using True by (simp add: ilog2_def m_def)
  have "(2::rat) powi (bitlen m - 1) = of_int (2 ^ nat (bitlen m - 1))"
    using bl by (simp add: power_int_def)
  also have "\<dots> \<le> of_int m" using b(1) by (subst of_int_le_iff)
  also have "\<dots> \<le> a" by (simp add: m_def)
  finally have lo: "2 powi ilog2 a \<le> a" by (simp add: i)
  have "a < of_int (m + 1)" using floor_correct [of a] by (simp add: m_def)
  also have "\<dots> \<le> of_int (2 ^ nat (bitlen m))" using b(2) by (subst of_int_le_iff) simp
  also have "\<dots> = (2::rat) powi (bitlen m)" using bl by (simp add: power_int_def)
  finally have "a < 2 powi (ilog2 a + 1)" by (simp add: i)
  with lo show ?thesis by simp
next
  case False
  define m where "m = \<lfloor>1 / a\<rfloor>"
  define k where "k = nat (bitlen m - 1)"
  have "1 \<le> 1 / a" using False assms by simp
  then have m: "0 < m" by (simp add: m_def)
  from bitlen_bounds [OF m] have b: "2 ^ k \<le> m" "m < 2 ^ nat (bitlen m)"
    by (auto simp: k_def)
  have bl: "1 \<le> bitlen m" using m by (simp add: bitlen_alt_def)
  have kk: "bitlen m - 1 = int k" "nat (bitlen m) = Suc k" using bl by (auto simp: k_def)
  have "(2::rat) ^ k = of_int (2 ^ k)" by simp
  also have "\<dots> \<le> of_int m" using b(1) by (subst of_int_le_iff)
  also have "\<dots> \<le> 1 / a" by (simp add: m_def)
  finally have up: "a * 2 ^ k \<le> 1" using assms by (simp add: field_simps)
  have "1 / a < of_int (m + 1)" using floor_correct [of "1 / a"] by (simp add: m_def)
  also have "\<dots> \<le> of_int (2 ^ Suc k)" using b(2) kk(2) by (subst of_int_le_iff) simp
  finally have lo: "1 < a * (2 * 2 ^ k)" using assms by (simp add: field_simps)
  have pk: "(2::rat) powi (- int k) = 1 / 2 ^ k"
    by (simp add: power_int_minus field_simps)
  have "- int k - 1 = - int (Suc k)" by simp
  then have "(2::rat) powi (- int k - 1) = 2 powi (- int (Suc k))" by (rule arg_cong)
  also have "\<dots> = inverse (2 powi int (Suc k))" by (rule power_int_minus)
  also have "\<dots> = inverse (2 ^ Suc k)" by (simp only: power_int_of_nat)
  also have "\<dots> = 1 / (2 * 2 ^ k)" by (simp add: field_simps)
  finally have pk1: "(2::rat) powi (- int k - 1) = 1 / (2 * 2 ^ k)" .
  show ?thesis
  proof (cases "a * 2 ^ k = 1")
    case True
    then have i: "ilog2 a = - int k" using False kk by (simp add: ilog2_def m_def Let_def)
    have "a = 1 / 2 ^ k" using True by (simp add: field_simps)
    with pk have pa: "2 powi (- int k) = a" by simp
    have 1: "2 powi ilog2 a = a" by (simp only: i pa)
    have "2 powi (ilog2 a + 1) = 2 * a" by (simp only: i p2_Suc pa)
    with 1 assms show ?thesis by simp
  next
    case F: False
    then have i: "ilog2 a = - int k - 1" using False kk by (simp add: ilog2_def m_def Let_def)
    have "a * 2 ^ k < 1" using up F by simp
    then have "a < 2 powi (- int k)" by (simp add: pk field_simps)
    moreover have "2 powi (- int k - 1) \<le> a" using lo by (simp add: pk1 field_simps)
    ultimately show ?thesis by (simp add: i)
  qed
qed

lemma ilog2_mono:
  assumes "0 < a" "a \<le> b"
  shows "ilog2 a \<le> ilog2 b"
proof (rule ccontr)
  assume "\<not> ilog2 a \<le> ilog2 b"
  then have "ilog2 b + 1 \<le> ilog2 a" by simp
  then have "(2::rat) powi (ilog2 b + 1) \<le> 2 powi ilog2 a" by (rule p2_mono)
  also have "\<dots> \<le> a" using ilog2_bounds [OF assms(1)] by simp
  also have "\<dots> \<le> b" by fact
  finally show False using ilog2_bounds [of b] assms by simp
qed

lemma grid_upper:
  assumes "0 < u" "x \<le> of_int k * u"
  shows "of_int (round_half_even (x / u)) * u \<le> of_int k * u"
proof -
  have "x / u \<le> of_int k" using assms by (simp add: field_simps)
  then have "round_half_even (x / u) \<le> k"
    using rhe_mono [of "x / u" "of_int k"] by (simp add: rhe_of_int)
  then have "(of_int (round_half_even (x / u)) :: rat) \<le> of_int k" by (subst of_int_le_iff)
  with assms(1) show ?thesis by simp
qed

lemma grid_lower:
  assumes "0 < u" "of_int k * u \<le> x"
  shows "of_int k * u \<le> of_int (round_half_even (x / u)) * u"
proof -
  have "of_int k \<le> x / u" using assms by (simp add: field_simps)
  then have "k \<le> round_half_even (x / u)"
    using rhe_mono [of "of_int k" "x / u"] by (simp add: rhe_of_int)
  then have "(of_int k :: rat) \<le> of_int (round_half_even (x / u))" by (subst of_int_le_iff)
  with assms(1) show ?thesis by simp
qed

lemma p2_split: "(2::rat) powi (e + 1) = 2 ^ 53 * 2 powi (e - 52)" "(2::rat) powi e = 2 ^ 52 * 2 powi (e - 52)"
proof -
  have "e + 1 = 53 + (e - 52)" by simp
  then have "(2::rat) powi (e + 1) = 2 powi (53 + (e - 52))" by (rule arg_cong)
  also have "\<dots> = 2 powi 53 * 2 powi (e - 52)" by (rule power_int_add) simp
  finally show "(2::rat) powi (e + 1) = 2 ^ 53 * 2 powi (e - 52)" by simp
  have "e = 52 + (e - 52)" by simp
  then have "(2::rat) powi e = 2 powi (52 + (e - 52))" by (rule arg_cong)
  also have "\<dots> = 2 powi 52 * 2 powi (e - 52)" by (rule power_int_add) simp
  finally show "(2::rat) powi e = 2 ^ 52 * 2 powi (e - 52)" by simp
qed

lemma round_pos_mono:
  assumes "0 < a" "a \<le> b"
  shows "round_pos a \<le> round_pos b"
proof -
  define ea where "ea = max (ilog2 a) (- 1022)"
  define eb where "eb = max (ilog2 b) (- 1022)"
  have b: "0 < b" using assms by simp
  have le: "ea \<le> eb" using ilog2_mono [OF assms] by (simp add: ea_def eb_def)
  have ra: "round_pos a = of_int (round_half_even (a / 2 powi (ea - 52))) * 2 powi (ea - 52)"
    by (simp add: round_pos_def ea_def Let_def)
  have rb: "round_pos b = of_int (round_half_even (b / 2 powi (eb - 52))) * 2 powi (eb - 52)"
    by (simp add: round_pos_def eb_def Let_def)
  show ?thesis
  proof (cases "ea = eb")
    case True
    have "a / 2 powi (eb - 52) \<le> b / 2 powi (eb - 52)"
      using assms(2) by (simp add: divide_right_mono)
    then have "round_half_even (a / 2 powi (eb - 52)) \<le> round_half_even (b / 2 powi (eb - 52))"
      by (rule rhe_mono)
    then have "(of_int (round_half_even (a / 2 powi (eb - 52))) :: rat)
        \<le> of_int (round_half_even (b / 2 powi (eb - 52)))" by (subst of_int_le_iff)
    then show ?thesis by (simp add: ra rb True)
  next
    case False
    with le have lt: "ea < eb" by simp
    then have ebi: "eb = ilog2 b" by (auto simp: ea_def eb_def max_def split: if_splits)
    have "a < 2 powi (ilog2 a + 1)" using ilog2_bounds [OF assms(1)] by simp
    also have "\<dots> \<le> 2 powi (ea + 1)" by (rule p2_mono) (simp add: ea_def)
    finally have a1: "a \<le> 2 powi (ea + 1)" by simp
    have sa: "(2::rat) powi (ea + 1) = of_int (2 ^ 53) * 2 powi (ea - 52)"
      using p2_split(1) [of ea] by simp
    have sb: "(2::rat) powi eb = of_int (2 ^ 52) * 2 powi (eb - 52)"
      using p2_split(2) [of eb] by simp
    from a1 have "a \<le> of_int (2 ^ 53) * 2 powi (ea - 52)" by (simp only: sa)
    then have "round_pos a \<le> of_int (2 ^ 53) * 2 powi (ea - 52)"
      unfolding ra by (intro grid_upper) simp_all
    also have "\<dots> = 2 powi (ea + 1)" by (simp only: sa)
    also have "\<dots> \<le> 2 powi eb" using lt by (intro p2_mono) simp
    finally have 1: "round_pos a \<le> 2 powi eb" .
    have "2 powi eb \<le> b" using ilog2_bounds [OF b] by (simp add: ebi)
    then have "of_int (2 ^ 52) * 2 powi (eb - 52) \<le> b" by (simp only: sb)
    then have "of_int (2 ^ 52) * 2 powi (eb - 52) \<le> round_pos b"
      unfolding rb by (intro grid_lower) simp_all
    then have "2 powi eb \<le> round_pos b" by (simp only: sb)
    with 1 show ?thesis by simp
  qed
qed

lemma round_pos_nonneg: "0 < a \<Longrightarrow> 0 \<le> round_pos a"
proof -
  assume a: "0 < a"
  define u where "u = (2::rat) powi (max (ilog2 a) (- 1022) - 52)"
  have u: "0 < u" by (simp add: u_def)
  have "of_int 0 * u \<le> of_int (round_half_even (a / u)) * u"
    using a u by (intro grid_lower) simp_all
  then show ?thesis by (simp add: round_pos_def Let_def u_def)
qed

lemma round_pos_of_int:
  assumes "1 \<le> n" "n \<le> 2 ^ 53"
  shows "round_pos (of_int n) = of_int n"
proof -
  define e where "e = ilog2 (of_int n)"
  have pos: "(0::rat) < of_int n" using assms by simp
  from ilog2_bounds [OF pos] have b: "2 powi e \<le> (of_int n :: rat)" "(of_int n :: rat) < 2 powi (e + 1)"
    by (simp_all add: e_def)
  have "(2::rat) powi 0 \<le> of_int n" using assms by simp
  also note b(2)
  finally have e0: "0 \<le> e" using p2_less_imp [of 0 "e + 1"] by simp
  have "(of_int n :: rat) \<le> of_int (2 ^ 53)" using assms(2) by (subst of_int_le_iff)
  then have n53: "(of_int n :: rat) \<le> 2 powi 53" by simp
  have e53: "e \<le> 53"
  proof (rule ccontr)
    assume "\<not> e \<le> 53"
    then have "(2::rat) powi 54 \<le> 2 powi e" by (intro p2_mono) simp
    with b(1) n53 show False by simp
  qed
  have r: "round_pos (of_int n) = of_int (round_half_even (of_int n / 2 powi (e - 52))) * 2 powi (e - 52)"
    using e0 by (simp add: round_pos_def e_def Let_def max_def)
  show ?thesis
  proof (cases "e = 53")
    case True
    with b(1) n53 have "(of_int n :: rat) = of_int (2 ^ 53)" by simp
    then have "n = 2 ^ 53" by (subst (asm) of_int_eq_iff)
    then have "(of_int n :: rat) / 2 powi (e - 52) = of_int (2 ^ 52)" by (simp add: True)
    then show ?thesis unfolding r by (simp only: rhe_of_int) (simp add: True \<open>n = 2 ^ 53\<close>)
  next
    case False
    with e53 have le: "e \<le> 52" by simp
    define j where "j = nat (52 - e)"
    have "e - 52 = - int j" using le by (simp add: j_def)
    then have "(2::rat) powi (e - 52) = 2 powi (- int j)" by (rule arg_cong)
    also have "\<dots> = inverse (2 powi int j)" by (rule power_int_minus)
    finally have pj: "(2::rat) powi (e - 52) = 1 / 2 ^ j" by (simp add: field_simps)
    have "(of_int n :: rat) / 2 powi (e - 52) = of_int (n * 2 ^ j)" by (simp add: pj)
    then show ?thesis unfolding r by (simp only: rhe_of_int) (simp add: pj)
  qed
qed

lemma round64_of_int:
  assumes "0 \<le> n" "n \<le> 2 ^ 53"
  shows "round64 (of_int n) = Finite (of_int n)"
proof (cases "n = 0")
  case True
  then show ?thesis by (simp add: round64_def)
next
  case False
  with assms have n: "1 \<le> n" by simp
  have "(of_int n :: rat) \<le> of_int (2 ^ 53)" using assms(2) by (subst of_int_le_iff)
  then have "(of_int n :: rat) < 2 ^ 1024" by simp
  with n show ?thesis
    by (simp add: round64_def round_pos_of_int [OF n assms(2)] Let_def)
qed

lemma round64_nonneg_mono:
  assumes "0 \<le> x" "x \<le> y" "round64 y = Finite q"
  shows "\<exists>p. round64 x = Finite p \<and> 0 \<le> p \<and> p \<le> q"
proof (cases "y = 0")
  case True
  with assms show ?thesis by (simp add: round64_def)
next
  case False
  with assms have y: "0 < y" by simp
  from assms(3) y have q: "q = round_pos y" "round_pos y < 2 ^ 1024"
    by (auto simp: round64_def Let_def split: if_splits)
  show ?thesis
  proof (cases "x = 0")
    case True
    with round_pos_nonneg [OF y] q show ?thesis by (simp add: round64_def)
  next
    case F: False
    with assms have x: "0 < x" by simp
    from round_pos_mono [OF x assms(2)] q round_pos_nonneg [OF x] x
    show ?thesis by (simp add: round64_def Let_def)
  qed
qed

lemma round64_floor_ceiling:
  assumes "0 \<le> x" "x \<le> 2 ^ 53" "round64 x = Finite p"
  shows "of_int \<lfloor>x\<rfloor> \<le> p \<and> p \<le> of_int \<lceil>x\<rceil>"
proof -
  have f0: "0 \<le> \<lfloor>x\<rfloor>" using assms(1) by simp
  have "\<lfloor>x\<rfloor> \<le> \<lfloor>2 ^ 53 :: rat\<rfloor>" using assms(2) by (rule floor_mono)
  then have f1: "\<lfloor>x\<rfloor> \<le> 2 ^ 53" by simp
  have "\<lceil>x\<rceil> \<le> \<lceil>2 ^ 53 :: rat\<rceil>" using assms(2) by (rule ceiling_mono)
  then have c1: "\<lceil>x\<rceil> \<le> 2 ^ 53" by simp
  have c0: "0 \<le> \<lceil>x\<rceil>" using assms(1) by simp
  from round64_nonneg_mono [of "of_int \<lfloor>x\<rfloor>" x p] f0 assms(3)
  have lo: "of_int \<lfloor>x\<rfloor> \<le> p" by (simp add: round64_of_int [OF f0 f1])
  from round64_nonneg_mono [of x "of_int \<lceil>x\<rceil>" "of_int \<lceil>x\<rceil>"] assms(1,3)
  have "p \<le> of_int \<lceil>x\<rceil>" by (simp add: round64_of_int [OF c0 c1])
  with lo show ?thesis by simp
qed

lemma round64_floor_or_ceiling:
  assumes "0 \<le> x" "x \<le> 2 ^ 53" "round64 x = Finite p"
  shows "\<lfloor>p\<rfloor> = \<lfloor>x\<rfloor> \<or> p = of_int \<lceil>x\<rceil>"
proof (cases "p = of_int \<lceil>x\<rceil>")
  case True
  then show ?thesis by simp
next
  case False
  from round64_floor_ceiling [OF assms] have b: "of_int \<lfloor>x\<rfloor> \<le> p" "p \<le> of_int \<lceil>x\<rceil>"
    by simp_all
  from b(2) False have "p < of_int \<lceil>x\<rceil>" by simp
  then have "\<lfloor>p\<rfloor> < \<lceil>x\<rceil>" by (simp add: floor_less_iff)
  moreover have "\<lceil>x\<rceil> \<le> \<lfloor>x\<rfloor> + 1" using ceiling_diff_floor_le_1 [of x] by simp
  moreover have "\<lfloor>x\<rfloor> \<le> \<lfloor>p\<rfloor>" using b(1) by (simp add: le_floor_iff)
  ultimately show ?thesis by simp
qed

lemma window_in_range:
  assumes "0 \<le> a" "a \<le> b" "b \<le> 1" "0 \<le> n" "n \<le> 2 ^ 53"
  shows "\<exists>p q. f64_mul (Finite a) (float64_of_int n) = Finite p
      \<and> f64_mul (Finite b) (float64_of_int n) = Finite q
      \<and> round64 (a * of_int n) = Finite p \<and> round64 (b * of_int n) = Finite q
      \<and> 0 \<le> p \<and> p \<le> q \<and> q \<le> of_int n
      \<and> percent_index rt (Finite a) n = \<lfloor>p\<rfloor> \<and> percent_index rt (Finite b) n = \<lfloor>q\<rfloor>
      \<and> window_indices rt (Finite a) (Finite b) n = (\<lfloor>p\<rfloor>, \<lfloor>q\<rfloor>)"
proof -
  have nf: "float64_of_int n = Finite (of_int n)"
    using assms(4,5) by (simp add: float64_of_int_def round64_of_int)
  have n0: "(0::rat) \<le> of_int n" using assms(4) by simp
  have bn: "0 \<le> b * of_int n" "b * of_int n \<le> of_int n"
    using assms n0 by (simp_all add: mult_left_le_one_le)
  have rn: "round64 (of_int n) = Finite (of_int n)"
    using nf by (simp add: float64_of_int_def)
  from round64_nonneg_mono [OF bn rn]
  obtain q where q: "round64 (b * of_int n) = Finite q" "0 \<le> q" "q \<le> of_int n"
    by blast
  have an: "0 \<le> a * of_int n" "a * of_int n \<le> b * of_int n"
    using assms n0 by (simp_all add: mult_right_mono)
  from round64_nonneg_mono [OF an q(1)]
  obtain p where p: "round64 (a * of_int n) = Finite p" "0 \<le> p" "p \<le> q"
    by blast
  have fl0: "0 \<le> \<lfloor>p\<rfloor>" using p(2) by simp
  have fl1: "\<lfloor>p\<rfloor> \<le> \<lfloor>q\<rfloor>" using p(3) by (rule floor_mono)
  have fl2: "\<lfloor>q\<rfloor> \<le> n" using floor_mono [OF q(3)] by simp
  have n63: "n < 2 ^ 63" using assms(5) by simp
  have tp: "trunc p = \<lfloor>p\<rfloor>" "trunc q = \<lfloor>q\<rfloor>" using p q by (simp_all add: trunc_def)
  have "(of_int n :: rat) < of_int (2 ^ 63)" using n63 by (subst of_int_less_iff)
  then have qb: "q < 2 ^ 63" using q(3) by simp
  then have pb: "p < 2 ^ 63" using p(3) by simp
  have ma: "f64_mul (Finite a) (float64_of_int n) = Finite p" by (simp add: nf p(1))
  have mb: "f64_mul (Finite b) (float64_of_int n) = Finite q" by (simp add: nf q(1))
  have ip: "percent_index rt (Finite a) n = \<lfloor>p\<rfloor>"
    unfolding percent_index_def ma using p(2) pb by (simp add: tp)
  have iq: "percent_index rt (Finite b) n = \<lfloor>q\<rfloor>"
    unfolding percent_index_def mb using q(2) qb by (simp add: tp)
  have c1: "\<not> f64_lt (Finite a) (Finite 0)" using assms(1) by simp
  have c2: "\<not> f64_gt (Finite b) (Finite 1)" using assms(3) by (simp add: f64_gt_def)
  have c3: "\<not> f64_gt (Finite a) (Finite b)" using assms(2) by (simp add: f64_gt_def)
  have "window_indices rt (Finite a) (Finite b) n = (\<lfloor>p\<rfloor>, \<lfloor>q\<rfloor>)"
    unfolding window_indices_def Let_def
    using fl0 fl1 fl2 by (simp only: c1 c2 c3 if_False ip iq) simp
  with ma mb p q ip iq show ?thesis by blast
qed

section \<open>The store: reading and writing\<close>

lemma decode_all_acc:
  "decode_all rt raw acc = acc @ List.map_filter (json_Unmarshal rt) raw"
  by (induction raw arbitrary: acc) (auto split: option.splits)

lemma window_indices_ordered:
  "fst (window_indices rt a b n) \<le> snd (window_indices rt a b n)
   \<and> snd (window_indices rt a b n) \<le> n"
  by (simp add: window_indices_def Let_def)

lemma go_slice_within:
  assumes "lo \<le> hi" "hi \<le> int (length s)" "length s \<le> c"
  shows "go_slice s c lo hi =
    (if 0 \<le> lo then Returns (take (nat (hi - lo)) (drop (nat lo) s)) else Panics)"
  using assms by (auto simp: go_slice_def)

lemma read_not_initialized:
  "ReadLocationData rt None u a b = (Returns (None, Some ErrNotInitialized), None)"
  by (simp add: ReadLocationData_def)

lemma read_get_failed:
  "get_err d = Some err \<Longrightarrow>
   ReadLocationData rt (Some d) u a b =
     (Returns (None, Some (ErrGet u err)), Some (d\<lparr>reads := reads d @ [GetTopicForUser u]\<rparr>))"
  by (simp add: ReadLocationData_def db_Get_def Let_def)

lemma read_get_ok:
  "get_err d = None \<Longrightarrow>
   \<forall>r e. fst (ReadLocationData rt (Some d) u a b) \<noteq> Returns (r, Some e)"
  by (auto simp: ReadLocationData_def db_Get_def Let_def split: outcome.splits)

lemma read_handle:
  "snd (ReadLocationData rt (Some d) u a b) = Some (d\<lparr>reads := reads d @ [GetTopicForUser u]\<rparr>)"
  by (auto simp: ReadLocationData_def db_Get_def Let_def split: outcome.splits option.splits)

text \<open>
  Claim C6. \<^verbatim>\<open>ReadLocationData\<close> returns a non-nil error exactly when the handle is nil
  (the store was never initialised) or \<^verbatim>\<open>db.Get\<close> itself returns an error; whenever it
  returns an error the slice it returns with it is nil; and with a handle it queries the
  store exactly once, error or not: the failed read is not retried.
\<close>

theorem read_fails_iff_store_unavailable:
  "((\<exists>r e. fst (ReadLocationData rt db u a b) = Returns (r, Some e))
      \<longleftrightarrow> (db = None \<or> (\<exists>d err. db = Some d \<and> get_err d = Some err)))
   \<and> (\<forall>r e. fst (ReadLocationData rt db u a b) = Returns (r, Some e) \<longrightarrow> r = None)
   \<and> (\<forall>d. db = Some d \<longrightarrow>
         snd (ReadLocationData rt db u a b) = Some (d\<lparr>reads := reads d @ [GetTopicForUser u]\<rparr>))"
proof (cases db)
  case None
  then show ?thesis by (simp add: read_not_initialized)
next
  case (Some d)
  show ?thesis
  proof (cases "get_err d")
    case None
    with Some read_get_ok [OF None, of rt u a b] show ?thesis
      by (simp add: read_handle)
  next
    case (Some err)
    with \<open>db = Some d\<close> show ?thesis
      by (simp add: read_get_failed [OF Some] read_handle)
  qed
qed


theorem read_fails_iff_store_unavailable_witness:
  "get_err (store3\<lparr>get_err := Some ''io''\<rparr>) = Some ''io''
   \<and> fst (ReadLocationData toy_rt (Some (store3\<lparr>get_err := Some ''io''\<rparr>)) ''u1'' (Finite 0) (Finite 1))
       = Returns (None, Some (ErrGet ''u1'' ''io''))
   \<and> reads (store3\<lparr>get_err := Some ''io''\<rparr>) = []
   \<and> snd (ReadLocationData toy_rt (Some (store3\<lparr>get_err := Some ''io''\<rparr>)) ''u1'' (Finite 0) (Finite 1))
       = Some (store3\<lparr>get_err := Some ''io'', reads := [''user.u1.location'']\<rparr>)"
  using read_fails_iff_store_unavailable
    [of toy_rt "Some (store3\<lparr>get_err := Some ''io''\<rparr>)" "''u1''" "Finite 0" "Finite 1"]
  by (simp add: read_get_failed store3_def store_of_def GetTopicForUser_def)

lemma write_step_effect:
  "Topic (fst (write_step rt d x st)) = Topic (fst st)
   \<and> snd (write_step rt d x st) = snd st @ map (Pair (Topic (fst st)))
        (filter (\<lambda>p. put_err d p = None) (List.map_filter (json_Marshal rt) [x]))"
  by (auto simp: write_step_def PutEntry_def Let_def List.map_filter_simps split: option.splits)

lemma fold_write_step:
  "Topic (fst (fold (write_step rt d) pts st)) = Topic (fst st)
   \<and> snd (fold (write_step rt d) pts st) = snd st @ map (Pair (Topic (fst st)))
        (filter (\<lambda>p. put_err d p = None) (List.map_filter (json_Marshal rt) pts))"
proof (induction pts arbitrary: st)
  case Nil
  show ?case by (simp add: List.map_filter_simps)
next
  case (Cons x pts)
  show ?case
    using Cons.IH [of "write_step rt d x st"] write_step_effect [of rt d x st]
    by (cases "json_Marshal rt x") (simp_all add: List.map_filter_simps)
qed

lemma write_result:
  "WriteLocationData rt (Some d) u pts =
     (case commit_err d of
        Some e \<Rightarrow> (Some (ErrStore e), Some d)
      | None \<Rightarrow> (None, Some (d\<lparr>messages := messages d
            @ map (Pair (GetTopicForUser u)) (persisted rt d pts)\<rparr>)))"
  using fold_write_step [of rt d pts "(\<lparr>Topic = GetTopicForUser u, Payload = []\<rparr>, [])"]
  by (simp add: WriteLocationData_def Batch_def Let_def persisted_def split: option.splits)

text \<open>
  Claim C10. With an initialised handle whose batch commit itself succeeds,
  \<^verbatim>\<open>WriteLocationData\<close> returns nil whatever happens to the individual samples: the
  store receives only the payloads that encoded and that \<^verbatim>\<open>PutEntry\<close> accepted, possibly
  fewer than the batch and none at all when every sample fails to encode, and the
  returned value is the same in each case.
\<close>

theorem write_reports_success_despite_drops:
  assumes "commit_err d = None"
  shows "fst (WriteLocationData rt (Some d) u pts) = None
   \<and> snd (WriteLocationData rt (Some d) u pts) =
       Some (d\<lparr>messages := messages d @ map (Pair (GetTopicForUser u)) (persisted rt d pts)\<rparr>)
   \<and> length (persisted rt d pts) \<le> length pts
   \<and> ((\<forall>x \<in> set pts. json_Marshal rt x = None) \<longrightarrow> persisted rt d pts = [])"
proof -
  have "length (persisted rt d pts) \<le> length (List.map_filter (json_Marshal rt) pts)"
    by (simp add: persisted_def)
  also have "\<dots> \<le> length pts" by (simp add: List.map_filter_def)
  finally have l: "length (persisted rt d pts) \<le> length pts" .
  have "(\<forall>x \<in> set pts. json_Marshal rt x = None) \<longrightarrow> persisted rt d pts = []"
    by (auto simp: persisted_def List.map_filter_def filter_empty_conv)
  with assms l show ?thesis by (simp add: write_result)
qed

theorem write_reports_success_despite_drops_witness:
  "commit_err store3 = None
   \<and> json_Marshal toy_rt ((sample 2)\<lparr>DeltaX := NaN\<rparr>) = None
   \<and> fst (WriteLocationData toy_rt (Some store3) ''u1'' [(sample 2)\<lparr>DeltaX := NaN\<rparr>]) = None
   \<and> snd (WriteLocationData toy_rt (Some store3) ''u1'' [(sample 2)\<lparr>DeltaX := NaN\<rparr>]) = Some store3
   \<and> fst (WriteLocationData toy_rt (Some store3) ''u1'' [sample 2]) = None
   \<and> persisted toy_rt store3 [sample 2] = [''tt'']"
  using write_reports_success_despite_drops
    [of store3 toy_rt "''u1''" "[(sample 2)\<lparr>DeltaX := NaN\<rparr>]"]
    write_reports_success_despite_drops [of store3 toy_rt "''u1''" "[sample 2]"]
  by (simp add: store3_def store_of_def toy_rt_def toy_Marshal_def sample_def persisted_def
      List.map_filter_simps eval_nat_numeral)

lemma GetTopicForUser_inj: "GetTopicForUser E = GetTopicForUser E' \<longleftrightarrow> E = E'"
  by (auto simp: GetTopicForUser_def)

text \<open>
  Claim C9. The key of entity \<open>E\<close> is \<open>user.E.location\<close>; two entities have the same
  key only if they are the same entity; every entry \<^verbatim>\<open>WriteLocationData\<close> commits for
  \<open>E\<close> is stored under that key; both versions of \<^verbatim>\<open>ReadLocationData\<close> query exactly
  that key; so what a read of \<open>E\<close> gets from the store after a write for \<open>E\<close> is what
  it got before, followed by the payloads just written.
\<close>

theorem one_key_per_entity:
  "GetTopicForUser E = ''user.'' @ E @ ''.location''
   \<and> (GetTopicForUser E = GetTopicForUser E' \<longleftrightarrow> E = E')
   \<and> (\<forall>d1. snd (WriteLocationData rt (Some d) E pts) = Some d1 \<longrightarrow>
         (\<exists>new. messages d1 = messages d @ new \<and> (\<forall>m \<in> set new. fst m = ''user.'' @ E @ ''.location'')
            \<and> (get_err d1 = None \<longrightarrow>
                  fst (fst (db_Get d1 (''user.'' @ E @ ''.location'')))
                    = fst (fst (db_Get d (''user.'' @ E @ ''.location''))) @ map snd new)))
   \<and> snd (ReadLocationData rt (Some d) E a b) = Some (d\<lparr>reads := reads d @ [''user.'' @ E @ ''.location'']\<rparr>)
   \<and> snd (ReadLocationData_all rt (Some d) E) = Some (d\<lparr>reads := reads d @ [''user.'' @ E @ ''.location'']\<rparr>)"
proof -
  have w: "\<forall>d1. snd (WriteLocationData rt (Some d) E pts) = Some d1 \<longrightarrow>
         (\<exists>new. messages d1 = messages d @ new \<and> (\<forall>m \<in> set new. fst m = GetTopicForUser E)
            \<and> (get_err d1 = None \<longrightarrow>
                  fst (fst (db_Get d1 (GetTopicForUser E)))
                    = fst (fst (db_Get d (GetTopicForUser E))) @ map snd new))"
  proof (intro allI impI)
    fix d1
    assume a: "snd (WriteLocationData rt (Some d) E pts) = Some d1"
    show "\<exists>new. messages d1 = messages d @ new \<and> (\<forall>m \<in> set new. fst m = GetTopicForUser E)
            \<and> (get_err d1 = None \<longrightarrow>
                  fst (fst (db_Get d1 (GetTopicForUser E)))
                    = fst (fst (db_Get d (GetTopicForUser E))) @ map snd new)"
    proof (cases "commit_err d")
      case None
      with a have d1: "d1 = d\<lparr>messages := messages d @ map (Pair (GetTopicForUser E)) (persisted rt d pts)\<rparr>"
        by (simp add: write_result)
      show ?thesis
        by (rule exI [of _ "map (Pair (GetTopicForUser E)) (persisted rt d pts)"])
           (auto simp: d1 db_Get_def comp_def filter_map)
    next
      case (Some e)
      with a have "d1 = d" by (simp add: write_result)
      then show ?thesis by (intro exI [of _ "[]"]) simp
    qed
  qed
  have r: "snd (ReadLocationData_all rt (Some d) E) = Some (d\<lparr>reads := reads d @ [GetTopicForUser E]\<rparr>)"
    by (auto simp: ReadLocationData_all_def db_Get_def Let_def split: option.splits)
  from w r show ?thesis
    by (simp add: read_handle GetTopicForUser_inj) (simp add: GetTopicForUser_def)
qed

theorem one_key_per_entity_witness:
  "GetTopicForUser ''u1'' = ''user.u1.location''
   \<and> GetTopicForUser ''u1'' \<noteq> GetTopicForUser ''u2''
   \<and> snd (WriteLocationData toy_rt (Some store3) ''u1'' [sample 2])
       = Some (store3\<lparr>messages := messages store3 @ [(''user.u1.location'', ''tt'')]\<rparr>)
   \<and> fst (fst (db_Get (store3\<lparr>messages := messages store3 @ [(''user.u1.location'', ''tt'')]\<rparr>)
         ''user.u1.location'')) = [''ttt'', ''x'', ''t'', ''tt'', ''tt'']"
  using one_key_per_entity [of "''u1''" "''u2''" toy_rt store3 "[sample 2]" "Finite 0" "Finite 1"]
  by (simp add: write_result store3_def store_of_def toy_rt_def toy_Marshal_def sample_def
      persisted_def List.map_filter_simps db_Get_def GetTopicForUser_def eval_nat_numeral)

lemma sorts_length:
  "sorts_by_Timestamp rt \<Longrightarrow> length (sort_Slice rt less_by_Timestamp xs) = length xs"
  by (metis sorts_by_Timestamp_def size_mset)

lemma read_ok_result:
  assumes "sorts_by_Timestamp rt" "get_err d = None"
  shows "fst (ReadLocationData rt (Some d) u a b) =
    (let xs = decoded_sorted rt d u;
         w = window_indices rt a b (int (length xs))
     in if xs = [] then Returns (Some [], None)
        else if 0 \<le> fst w
          then Returns (Some (take (nat (snd w - fst w)) (drop (nat (fst w)) xs)), None)
          else Panics)"
proof -
  define raw where "raw = stored_under d u"
  define xs where "xs = decoded_sorted rt d u"
  have len: "length xs \<le> length raw"
    using sorts_length [OF assms(1)]
    by (simp add: xs_def decoded_sorted_def raw_def List.map_filter_def)
  have g: "db_Get d (GetTopicForUser u) = ((raw, None), d\<lparr>reads := reads d @ [GetTopicForUser u]\<rparr>)"
    using assms(2) by (simp add: db_Get_def raw_def stored_under_def)
  have dx: "sort_Slice rt less_by_Timestamp (decode_all rt raw []) = xs"
    by (simp add: decode_all_acc xs_def decoded_sorted_def raw_def)
  show ?thesis
  proof (cases "xs = []")
    case True
    then show ?thesis
      by (simp add: ReadLocationData_def g dx Let_def xs_def [symmetric])
  next
    case False
    then have r: "raw \<noteq> []" using len by auto
    define w where "w = window_indices rt a b (int (length xs))"
    have o: "fst w \<le> snd w" "snd w \<le> int (length xs)"
      using window_indices_ordered [of rt a b "int (length xs)"] by (simp_all add: w_def)
    from go_slice_within [OF o len]
    show ?thesis using False r
      by (simp add: ReadLocationData_def g dx Let_def xs_def [symmetric] w_def [symmetric])
  qed
qed

lemma insert_by_mset: "mset (insert_by lt x ys) = add_mset x (mset ys)"
  by (induction ys) auto

lemma insertion_sort_mset: "mset (insertion_sort lt xs) = mset xs"
  by (induction xs) (auto simp: insert_by_mset)

lemma insert_by_set: "set (insert_by lt x ys) = insert x (set ys)"
  by (induction ys) auto

lemma insert_by_sorted:
  "sorted_wrt (\<lambda>a b. \<not> less_by_Timestamp b a) ys \<Longrightarrow>
   sorted_wrt (\<lambda>a b. \<not> less_by_Timestamp b a) (insert_by less_by_Timestamp x ys)"
  by (induction ys) (auto simp: insert_by_set less_by_Timestamp_def Before_def)

lemma insertion_sort_sorted:
  "sorted_wrt (\<lambda>a b. \<not> less_by_Timestamp b a) (insertion_sort less_by_Timestamp xs)"
  by (induction xs) (auto simp: insert_by_sorted)

lemma toy_rt_sorts: "sorts_by_Timestamp toy_rt"
  by (simp add: sorts_by_Timestamp_def toy_rt_def insertion_sort_mset insertion_sort_sorted)

lemma map_filter_decodable:
  "List.map_filter f (filter (\<lambda>x. f x \<noteq> None) xs) = List.map_filter f xs"
  by (induction xs) (auto split: option.splits)

lemma stored_under_decodable:
  "List.map_filter f (stored_under (d\<lparr>messages := filter (\<lambda>m. f (snd m) \<noteq> None) (messages d)\<rparr>) u)
     = List.map_filter f (stored_under d u)"
proof -
  have c: "map snd (filter (\<lambda>m. fst m = k) (filter (\<lambda>m. f (snd m) \<noteq> None) ms))
      = filter (\<lambda>x. f x \<noteq> None) (map snd (filter (\<lambda>m. fst m = k) ms))" for k and ms :: "(string \<times> string) list"
    by (induction ms) auto
  have m: "messages (d\<lparr>messages := ms\<rparr>) = ms" for ms by simp
  show ?thesis by (simp only: stored_under_def m c map_filter_decodable)
qed

lemma read_in_range:
  assumes "sorts_by_Timestamp rt" "get_err d = None" "0 \<le> a" "a \<le> b" "b \<le> 1"
    "int (length (decoded_sorted rt d u)) \<le> 2 ^ 53"
  shows "\<exists>p q. f64_mul (Finite a) (float64_of_int (int (length (decoded_sorted rt d u)))) = Finite p
      \<and> f64_mul (Finite b) (float64_of_int (int (length (decoded_sorted rt d u)))) = Finite q
      \<and> 0 \<le> p \<and> p \<le> q \<and> q \<le> of_nat (length (decoded_sorted rt d u))
      \<and> fst (ReadLocationData rt (Some d) u (Finite a) (Finite b)) =
          Returns (Some (take (nat (\<lfloor>q\<rfloor> - \<lfloor>p\<rfloor>)) (drop (nat \<lfloor>p\<rfloor>) (decoded_sorted rt d u))), None)"
proof -
  define xs where "xs = decoded_sorted rt d u"
  from window_in_range [OF assms(3,4,5) _ assms(6), of rt]
  obtain p q where pq: "f64_mul (Finite a) (float64_of_int (int (length xs))) = Finite p"
    "f64_mul (Finite b) (float64_of_int (int (length xs))) = Finite q"
    "0 \<le> p" "p \<le> q" "q \<le> of_int (int (length xs))"
    "window_indices rt (Finite a) (Finite b) (int (length xs)) = (\<lfloor>p\<rfloor>, \<lfloor>q\<rfloor>)"
    unfolding xs_def by auto
  have "fst (ReadLocationData rt (Some d) u (Finite a) (Finite b)) =
          Returns (Some (take (nat (\<lfloor>q\<rfloor> - \<lfloor>p\<rfloor>)) (drop (nat \<lfloor>p\<rfloor>) xs)), None)"
    using pq(3) by (simp add: read_ok_result [OF assms(1,2)] Let_def xs_def [symmetric] pq(6))
  with pq show ?thesis unfolding xs_def by auto
qed

lemma store3_decoded: "decoded_sorted toy_rt store3 ''u1'' = [sample 1, sample 2, sample 3]"
  by (simp add: decoded_sorted_def stored_under_def store3_def store_of_def GetTopicForUser_def
      toy_rt_def toy_Unmarshal_def less_by_Timestamp_def Before_def sample_def)

lemma store3_ok: "get_err store3 = None"
  by (simp add: store3_def store_of_def)

lemma read_store3:
  "fst (ReadLocationData toy_rt (Some store3) ''u1'' a b) =
     (if 0 \<le> fst (window_indices toy_rt a b 3)
      then Returns (Some (take (nat (snd (window_indices toy_rt a b 3) - fst (window_indices toy_rt a b 3)))
             (drop (nat (fst (window_indices toy_rt a b 3))) [sample 1, sample 2, sample 3])), None)
      else Panics)"
  by (simp add: read_ok_result [OF toy_rt_sorts store3_ok] store3_decoded Let_def)

lemma read_in_range_index:
  assumes "sorts_by_Timestamp rt" "get_err d = None" "0 \<le> a" "a \<le> b" "b \<le> 1"
    "int (length (decoded_sorted rt d u)) \<le> 2 ^ 53"
  shows "fst (ReadLocationData rt (Some d) u (Finite a) (Finite b)) =
       Returns (Some (take (nat (percent_index rt (Finite b) (int (length (decoded_sorted rt d u)))
                              - percent_index rt (Finite a) (int (length (decoded_sorted rt d u)))))
                  (drop (nat (percent_index rt (Finite a) (int (length (decoded_sorted rt d u)))))
                     (decoded_sorted rt d u))), None)
    \<and> 0 \<le> percent_index rt (Finite a) (int (length (decoded_sorted rt d u)))
    \<and> percent_index rt (Finite a) (int (length (decoded_sorted rt d u)))
         \<le> percent_index rt (Finite b) (int (length (decoded_sorted rt d u)))
    \<and> percent_index rt (Finite b) (int (length (decoded_sorted rt d u)))
         \<le> int (length (decoded_sorted rt d u))"
proof -
  define xs where "xs = decoded_sorted rt d u"
  define n where "n = int (length xs)"
  have n0: "0 \<le> n" and n53: "n \<le> 2 ^ 53" using assms(6) by (simp_all add: n_def xs_def)
  from window_in_range [OF assms(3,4,5) n0 n53, of rt]
  obtain p q :: rat where pq: "0 \<le> p" "p \<le> q" "q \<le> of_int n"
    "percent_index rt (Finite a) n = \<lfloor>p\<rfloor>" "percent_index rt (Finite b) n = \<lfloor>q\<rfloor>"
    "window_indices rt (Finite a) (Finite b) n = (\<lfloor>p\<rfloor>, \<lfloor>q\<rfloor>)"
    by blast
  have ord: "0 \<le> \<lfloor>p\<rfloor>" "\<lfloor>p\<rfloor> \<le> \<lfloor>q\<rfloor>" "\<lfloor>q\<rfloor> \<le> n"
    using pq(1) floor_mono [OF pq(2)] floor_mono [OF pq(3)] by simp_all
  have "fst (ReadLocationData rt (Some d) u (Finite a) (Finite b)) =
       Returns (Some (take (nat (\<lfloor>q\<rfloor> - \<lfloor>p\<rfloor>)) (drop (nat \<lfloor>p\<rfloor>) xs)), None)"
    using ord(1)
    by (simp add: read_ok_result [OF assms(1,2)] Let_def xs_def [symmetric] n_def [symmetric] pq(6))
  with ord show ?thesis
    unfolding xs_def [symmetric] n_def [symmetric] pq(4,5) by simp
qed

text \<open>
  Claim C7. The decoding loop keeps exactly the records that decode, in store order, and
  the fetch is the windowed slice over them. For any mix of decodable and undecodable
  records under the key, with \<open>xs\<close> the decodings of the decodable records sorted by
  timestamp: the fetch with any two fractions returns exactly \<open>xs[s:e]\<close> for the indices
  \<open>(s, e)\<close> the clamps of \<^verbatim>\<open>ReadLocationData\<close> compute from the fractions and the length of
  \<open>xs\<close> (the empty slice when nothing decodes, a panic when the start index is negative);
  it returns what it returns on the same store with the undecodable records removed; it
  never returns an error because of them; and for fractions \<open>0 \<le> a \<le> b \<le> 1\<close> it returns
  exactly \<open>xs[int(a * n) : int(b * n)]\<close> with \<open>n\<close> the length of \<open>xs\<close>, the conversions being
  those of the code, the indices in range, and every sample a decoding of a stored record.
\<close>

theorem undecodable_records_are_skipped:
  assumes "sorts_by_Timestamp rt" "get_err d = None"
  shows "decode_all rt (stored_under d u) [] = List.map_filter (json_Unmarshal rt) (stored_under d u)
   \<and> decoded_sorted rt d u
       = sort_Slice rt less_by_Timestamp (decode_all rt (stored_under d u) [])
   \<and> fst (ReadLocationData rt (Some d) u minPercent maxPercent)
       = (if decoded_sorted rt d u = [] then Returns (Some [], None)
          else if 0 \<le> fst (window_indices rt minPercent maxPercent (int (length (decoded_sorted rt d u))))
          then Returns (Some
                 (take (nat (snd (window_indices rt minPercent maxPercent (int (length (decoded_sorted rt d u))))
                            - fst (window_indices rt minPercent maxPercent (int (length (decoded_sorted rt d u))))))
                   (drop (nat (fst (window_indices rt minPercent maxPercent (int (length (decoded_sorted rt d u))))))
                      (decoded_sorted rt d u))), None)
          else Panics)
   \<and> fst (ReadLocationData rt (Some d) u minPercent maxPercent)
       = fst (ReadLocationData rt
           (Some (d\<lparr>messages := filter (\<lambda>m. json_Unmarshal rt (snd m) \<noteq> None) (messages d)\<rparr>))
           u minPercent maxPercent)
   \<and> (\<forall>r e. fst (ReadLocationData rt (Some d) u minPercent maxPercent) \<noteq> Returns (r, Some e))
   \<and> (0 \<le> a \<and> a \<le> b \<and> b \<le> 1 \<and> int (length (decoded_sorted rt d u)) \<le> 2 ^ 53 \<longrightarrow>
        fst (ReadLocationData rt (Some d) u (Finite a) (Finite b)) =
          Returns (Some (take (nat (percent_index rt (Finite b) (int (length (decoded_sorted rt d u)))
                              - percent_index rt (Finite a) (int (length (decoded_sorted rt d u)))))
                  (drop (nat (percent_index rt (Finite a) (int (length (decoded_sorted rt d u)))))
                     (decoded_sorted rt d u))), None)
        \<and> 0 \<le> percent_index rt (Finite a) (int (length (decoded_sorted rt d u)))
        \<and> percent_index rt (Finite a) (int (length (decoded_sorted rt d u)))
             \<le> percent_index rt (Finite b) (int (length (decoded_sorted rt d u)))
        \<and> percent_index rt (Finite b) (int (length (decoded_sorted rt d u)))
             \<le> int (length (decoded_sorted rt d u))
        \<and> (\<exists>r. fst (ReadLocationData rt (Some d) u (Finite a) (Finite b)) = Returns (Some r, None)
           \<and> set r \<subseteq> {x. \<exists>m \<in> set (stored_under d u). json_Unmarshal rt m = Some x}))"
proof -
  let ?d' = "d\<lparr>messages := filter (\<lambda>m. json_Unmarshal rt (snd m) \<noteq> None) (messages d)\<rparr>"
  have g: "get_err ?d' = None" using assms(2) by simp
  have ds: "decoded_sorted rt ?d' u = decoded_sorted rt d u"
    by (simp only: decoded_sorted_def stored_under_decodable)
  have 0: "decoded_sorted rt d u
       = sort_Slice rt less_by_Timestamp (decode_all rt (stored_under d u) [])"
    by (simp add: decoded_sorted_def decode_all_acc)
  have w: "fst (ReadLocationData rt (Some d) u minPercent maxPercent)
       = (if decoded_sorted rt d u = [] then Returns (Some [], None)
          else if 0 \<le> fst (window_indices rt minPercent maxPercent (int (length (decoded_sorted rt d u))))
          then Returns (Some
                 (take (nat (snd (window_indices rt minPercent maxPercent (int (length (decoded_sorted rt d u))))
                            - fst (window_indices rt minPercent maxPercent (int (length (decoded_sorted rt d u))))))
                   (drop (nat (fst (window_indices rt minPercent maxPercent (int (length (decoded_sorted rt d u))))))
                      (decoded_sorted rt d u))), None)
          else Panics)"
    by (simp add: read_ok_result [OF assms] Let_def)
  have 1: "fst (ReadLocationData rt (Some d) u minPercent maxPercent)
       = fst (ReadLocationData rt (Some ?d') u minPercent maxPercent)"
    by (simp only: read_ok_result [OF assms(1) g] read_ok_result [OF assms] ds)
  have 2: "0 \<le> a \<and> a \<le> b \<and> b \<le> 1 \<and> int (length (decoded_sorted rt d u)) \<le> 2 ^ 53 \<longrightarrow>
        fst (ReadLocationData rt (Some d) u (Finite a) (Finite b)) =
          Returns (Some (take (nat (percent_index rt (Finite b) (int (length (decoded_sorted rt d u)))
                              - percent_index rt (Finite a) (int (length (decoded_sorted rt d u)))))
                  (drop (nat (percent_index rt (Finite a) (int (length (decoded_sorted rt d u)))))
                     (decoded_sorted rt d u))), None)
        \<and> 0 \<le> percent_index rt (Finite a) (int (length (decoded_sorted rt d u)))
        \<and> percent_index rt (Finite a) (int (length (decoded_sorted rt d u)))
             \<le> percent_index rt (Finite b) (int (length (decoded_sorted rt d u)))
        \<and> percent_index rt (Finite b) (int (length (decoded_sorted rt d u)))
             \<le> int (length (decoded_sorted rt d u))
        \<and> (\<exists>r. fst (ReadLocationData rt (Some d) u (Finite a) (Finite b)) = Returns (Some r, None)
           \<and> set r \<subseteq> {x. \<exists>m \<in> set (stored_under d u). json_Unmarshal rt m = Some x})"
  proof
    assume h: "0 \<le> a \<and> a \<le> b \<and> b \<le> 1 \<and> int (length (decoded_sorted rt d u)) \<le> 2 ^ 53"
    from h have h1: "0 \<le> a" "a \<le> b" "b \<le> 1" "int (length (decoded_sorted rt d u)) \<le> 2 ^ 53"
      by blast+
    note r = read_in_range_index [OF assms h1]
    have "set (decoded_sorted rt d u) = set (List.map_filter (json_Unmarshal rt) (stored_under d u))"
      using assms(1) unfolding decoded_sorted_def sorts_by_Timestamp_def by (metis set_mset_mset)
    also have "\<dots> \<subseteq> {x. \<exists>m \<in> set (stored_under d u). json_Unmarshal rt m = Some x}"
      by (auto simp: List.map_filter_def)
    finally have "set (take k (drop j (decoded_sorted rt d u)))
        \<subseteq> {x. \<exists>m \<in> set (stored_under d u). json_Unmarshal rt m = Some x}" for k j
      using set_take_subset set_drop_subset by fast
    with r show "fst (ReadLocationData rt (Some d) u (Finite a) (Finite b)) =
          Returns (Some (take (nat (percent_index rt (Finite b) (int (length (decoded_sorted rt d u)))
                              - percent_index rt (Finite a) (int (length (decoded_sorted rt d u)))))
                  (drop (nat (percent_index rt (Finite a) (int (length (decoded_sorted rt d u)))))
                     (decoded_sorted rt d u))), None)
        \<and> 0 \<le> percent_index rt (Finite a) (int (length (decoded_sorted rt d u)))
        \<and> percent_index rt (Finite a) (int (length (decoded_sorted rt d u)))
             \<le> percent_index rt (Finite b) (int (length (decoded_sorted rt d u)))
        \<and> percent_index rt (Finite b) (int (length (decoded_sorted rt d u)))
             \<le> int (length (decoded_sorted rt d u))
        \<and> (\<exists>r. fst (ReadLocationData rt (Some d) u (Finite a) (Finite b)) = Returns (Some r, None)
           \<and> set r \<subseteq> {x. \<exists>m \<in> set (stored_under d u). json_Unmarshal rt m = Some x})"
      by blast
  qed
  have 3: "decode_all rt (stored_under d u) [] = List.map_filter (json_Unmarshal rt) (stored_under d u)"
    by (simp add: decode_all_acc)
  note 4 = read_get_ok [OF assms(2), of rt u minPercent maxPercent]
  show ?thesis
    by (intro conjI; (fact 3 | fact 0 | fact w | fact 1 | fact 4 | fact 2))
qed

theorem undecodable_records_are_skipped_witness:
  "sorts_by_Timestamp toy_rt \<and> get_err store3 = None
   \<and> stored_under store3 ''u1'' = [''ttt'', ''x'', ''t'', ''tt'']
   \<and> json_Unmarshal toy_rt ''x'' = None
   \<and> decode_all toy_rt (stored_under store3 ''u1'') [] = [sample 3, sample 1, sample 2]
   \<and> decoded_sorted toy_rt store3 ''u1'' = [sample 1, sample 2, sample 3]
   \<and> (0::rat) \<le> 1 / 2 \<and> (1::rat) / 2 \<le> 1 \<and> (1::rat) \<le> 1
   \<and> int (length (decoded_sorted toy_rt store3 ''u1'')) \<le> 2 ^ 53
   \<and> percent_index toy_rt (Finite (1 / 2)) 3 = 1 \<and> percent_index toy_rt (Finite 1) 3 = 3
   \<and> fst (ReadLocationData toy_rt (Some store3) ''u1'' (Finite (1 / 2)) (Finite 1))
       = Returns (Some [sample 2, sample 3], None)
   \<and> fst (ReadLocationData toy_rt (Some store3) ''u1'' (Finite 0) (Finite 1))
       = Returns (Some [sample 1, sample 2, sample 3], None)"
proof -
  have i: "percent_index toy_rt (Finite (1 / 2)) 3 = 1" "percent_index toy_rt (Finite 1) 3 = 3"
    "percent_index toy_rt (Finite 0) 3 = 0"
    by (simp_all add: percent_index_def float64_of_int_def trunc_def f64_eval)
  have s: "stored_under store3 ''u1'' = [''ttt'', ''x'', ''t'', ''tt'']"
    by (simp add: stored_under_def store3_def store_of_def GetTopicForUser_def)
  have dc: "decode_all toy_rt (stored_under store3 ''u1'') [] = [sample 3, sample 1, sample 2]"
    by (simp add: s toy_rt_def toy_Unmarshal_def sample_def)
  have x: "json_Unmarshal toy_rt ''x'' = None" by (simp add: toy_rt_def toy_Unmarshal_def)
  have h: "(0::rat) \<le> 1 / 2 \<and> (1::rat) / 2 \<le> 1 \<and> (1::rat) \<le> 1
      \<and> int (length (decoded_sorted toy_rt store3 ''u1'')) \<le> 2 ^ 53"
    by (simp add: store3_decoded)
  have h0: "(0::rat) \<le> 0 \<and> (0::rat) \<le> 1 \<and> (1::rat) \<le> 1
      \<and> int (length (decoded_sorted toy_rt store3 ''u1'')) \<le> 2 ^ 53"
    by (simp add: store3_decoded)
  note t1 = undecodable_records_are_skipped [where rt = toy_rt and d = store3 and u = "''u1''"
      and minPercent = "Finite 0" and maxPercent = "Finite 1" and a = "1 / 2" and b = 1,
      OF toy_rt_sorts store3_ok]
  note t0 = undecodable_records_are_skipped [where rt = toy_rt and d = store3 and u = "''u1''"
      and minPercent = "Finite 0" and maxPercent = "Finite 1" and a = 0 and b = 1,
      OF toy_rt_sorts store3_ok]
  have r1: "fst (ReadLocationData toy_rt (Some store3) ''u1'' (Finite (1 / 2)) (Finite 1))
       = Returns (Some [sample 2, sample 3], None)"
    using t1 [THEN conjunct2, THEN conjunct2, THEN conjunct2, THEN conjunct2, THEN conjunct2,
        THEN mp, OF h, THEN conjunct1]
    by (simp add: store3_decoded i)
  have r0: "fst (ReadLocationData toy_rt (Some store3) ''u1'' (Finite 0) (Finite 1))
       = Returns (Some [sample 1, sample 2, sample 3], None)"
    using t0 [THEN conjunct2, THEN conjunct2, THEN conjunct2, THEN conjunct2, THEN conjunct2,
        THEN mp, OF h0, THEN conjunct1]
    by (simp add: store3_decoded i)
  have n: "(0::rat) \<le> 1 / 2" "(1::rat) / 2 \<le> 1" "(1::rat) \<le> 1"
    "int (length (decoded_sorted toy_rt store3 ''u1'')) \<le> 2 ^ 53"
    using h by simp_all
  show ?thesis
    by (intro conjI; (fact toy_rt_sorts | fact store3_ok | fact s | fact x | fact dc
          | fact store3_decoded | fact n | fact i | fact r1 | fact r0))
qed

section \<open>The percentage window\<close>

lemma third64_window: "window_indices toy_rt (Finite 0) (Finite third64) 3 = (0, 1)"
  by (simp add: window_indices_def percent_index_def float64_of_int_def f64_gt_def trunc_def
      third64_def f64_eval)

text \<open>
  Claim C1, as stated, fails. With three samples and the window \<open>[0, x]\<close>, where \<open>x\<close>
  is the float64 nearest to one third (a value below one third), the claim gives the
  slice \<open>[floor(0 \<sdot> 3), floor(x \<sdot> 3)) = [0, 0)\<close>, which is empty. The code multiplies in
  float64: the exact product \<open>1 - 2^-54\<close> rounds to \<open>1.0\<close>, the end index is 1 and one
  sample is returned.
\<close>

theorem floor_of_exact_product_counterexample:
  "is_float64 third64 \<and> 0 \<le> third64 \<and> third64 \<le> 1
   \<and> length (decoded_sorted toy_rt store3 ''u1'') = 3
   \<and> \<lfloor>0 * 3 :: rat\<rfloor> = 0 \<and> \<lfloor>third64 * 3\<rfloor> = 0
   \<and> fst (ReadLocationData toy_rt (Some store3) ''u1'' (Finite 0) (Finite third64))
       = Returns (Some [sample 1], None)"
proof -
  have 1: "is_float64 third64" by (simp add: is_float64_def third64_def f64_eval)
  have 2: "\<lfloor>third64 * 3\<rfloor> = 0" by (simp add: third64_def floor_rat_numeral)
  have 3: "fst (ReadLocationData toy_rt (Some store3) ''u1'' (Finite 0) (Finite third64))
       = Returns (Some [sample 1], None)"
    by (simp add: read_store3 third64_window)
  from 1 2 3 show ?thesis by (simp add: store3_decoded) (simp add: third64_def)
qed


lemma sorted_slice:
  assumes "sorts_by_Timestamp rt"
  shows "sorted (map Timestamp (decoded_sorted rt d u))"
    and "sorted (map Timestamp (take k (drop j (decoded_sorted rt d u))))"
proof -
  have "sorted_wrt (\<lambda>a b. \<not> less_by_Timestamp b a) (decoded_sorted rt d u)"
    using assms by (simp add: sorts_by_Timestamp_def decoded_sorted_def)
  then have s: "sorted_wrt (\<lambda>a b. Timestamp a \<le> Timestamp b) (decoded_sorted rt d u)"
    by (simp add: less_by_Timestamp_def Before_def not_less)
  then show "sorted (map Timestamp (decoded_sorted rt d u))"
    by (simp add: sorted_map)
  from s have "sorted_wrt (\<lambda>a b. Timestamp a \<le> Timestamp b) (take k (drop j (decoded_sorted rt d u)))"
    by (intro sorted_wrt_take sorted_wrt_drop)
  then show "sorted (map Timestamp (take k (drop j (decoded_sorted rt d u))))"
    by (simp add: sorted_map)
qed

text \<open>
  Claim C1, amended. Let \<open>xs\<close> be the decoded samples of the entity sorted ascending by
  timestamp, \<open>n\<close> their number (at most \<open>2^53\<close>), and \<open>0 \<le> a \<le> b \<le> 1\<close>. The fetch
  returns the contiguous half-open slice \<open>[s, e)\<close> of \<open>xs\<close>, where \<open>s\<close> and \<open>e\<close> are
  the integer parts of the float64 products \<open>a \<sdot> n\<close> and \<open>b \<sdot> n\<close>: each is the floor of
  the exact product, except when the float64 product is the exact product rounded up to
  the next integer, which is then the index. \<open>0 \<le> s \<le> e \<le> n\<close>, so the result has
  \<open>e - s\<close> samples, non-decreasing by timestamp; \<open>b = 1\<close> gives \<open>e = n\<close> (the last
  sample is included), \<open>a = b\<close> gives the empty result, and \<open>n = 0\<close> gives the empty
  sequence, not an error.
\<close>

theorem read_returns_float_window:
  fixes rt :: go_runtime and d :: unitdb and u :: string and a b :: rat
  defines "xs \<equiv> decoded_sorted rt d u"
    and "n \<equiv> int (length (decoded_sorted rt d u))"
    and "s \<equiv> percent_index rt (Finite a) (int (length (decoded_sorted rt d u)))"
    and "e \<equiv> percent_index rt (Finite b) (int (length (decoded_sorted rt d u)))"
  assumes srt: "sorts_by_Timestamp rt" and ok: "get_err d = None"
    and a0: "0 \<le> a" and ab: "a \<le> b" and b1: "b \<le> 1" and bound: "n \<le> 2 ^ 53"
  shows "fst (ReadLocationData rt (Some d) u (Finite a) (Finite b)) =
       Returns (Some (take (nat (e - s)) (drop (nat s) xs)), None)
   \<and> 0 \<le> s \<and> s \<le> e \<and> e \<le> n
   \<and> length (take (nat (e - s)) (drop (nat s) xs)) = nat (e - s)
   \<and> sorted (map Timestamp (take (nat (e - s)) (drop (nat s) xs)))
   \<and> mset xs = mset (List.map_filter (json_Unmarshal rt) (stored_under d u))
   \<and> sorted (map Timestamp xs)
   \<and> (s = \<lfloor>a * of_int n\<rfloor>
        \<or> f64_mul (Finite a) (float64_of_int n) = Finite (of_int \<lceil>a * of_int n\<rceil>))
   \<and> (e = \<lfloor>b * of_int n\<rfloor>
        \<or> f64_mul (Finite b) (float64_of_int n) = Finite (of_int \<lceil>b * of_int n\<rceil>))
   \<and> (b = 1 \<longrightarrow> e = n)
   \<and> (a = b \<longrightarrow> fst (ReadLocationData rt (Some d) u (Finite a) (Finite b)) = Returns (Some [], None))
   \<and> (xs = [] \<longrightarrow> fst (ReadLocationData rt (Some d) u (Finite a) (Finite b)) = Returns (Some [], None))"
proof -
  have n_def': "n = int (length xs)" by (simp add: n_def xs_def)
  have s_def': "s = percent_index rt (Finite a) n" by (simp add: s_def n_def)
  have e_def': "e = percent_index rt (Finite b) n" by (simp add: e_def n_def)
  have xs_def': "xs = decoded_sorted rt d u" by (simp add: xs_def)
  have n0: "0 \<le> n" and n53: "n \<le> 2 ^ 53" using bound by (simp_all add: n_def)
  from window_in_range [OF a0 ab b1 n0 n53, of rt]
  obtain p q :: rat where pq: "f64_mul (Finite a) (float64_of_int n) = Finite p"
    "f64_mul (Finite b) (float64_of_int n) = Finite q"
    "round64 (a * of_int n) = Finite p" "round64 (b * of_int n) = Finite q"
    "0 \<le> p" "p \<le> q" "q \<le> of_int n" "s = \<lfloor>p\<rfloor>" "e = \<lfloor>q\<rfloor>"
    "window_indices rt (Finite a) (Finite b) n = (\<lfloor>p\<rfloor>, \<lfloor>q\<rfloor>)"
    unfolding s_def' e_def' by blast
  have ord: "0 \<le> s" "s \<le> e" "e \<le> n"
    using pq(5,6) floor_mono [OF pq(6)] floor_mono [OF pq(7)] by (simp_all add: pq(8,9))
  have res: "fst (ReadLocationData rt (Some d) u (Finite a) (Finite b)) =
       Returns (Some (take (nat (e - s)) (drop (nat s) xs)), None)"
    using ord(1)
    by (simp add: read_ok_result [OF srt ok] Let_def xs_def' [symmetric] n_def' [symmetric]
        pq(10) pq(8) pq(9))
  have len: "length (take (nat (e - s)) (drop (nat s) xs)) = nat (e - s)"
    using ord by (simp add: n_def')
  have srted: "sorted (map Timestamp (take (nat (e - s)) (drop (nat s) xs)))" "sorted (map Timestamp xs)"
    unfolding xs_def' by (rule sorted_slice [OF srt])+
  have perm: "mset xs = mset (List.map_filter (json_Unmarshal rt) (stored_under d u))"
    using srt by (simp add: xs_def' decoded_sorted_def sorts_by_Timestamp_def)
  have an: "0 \<le> a * of_int n" "a * of_int n \<le> 2 ^ 53" "0 \<le> b * of_int n" "b * of_int n \<le> 2 ^ 53"
  proof -
    have nn: "(0::rat) \<le> of_int n" "(of_int n :: rat) \<le> 2 ^ 53"
      using n0 n53 by (simp, metis of_int_le_iff of_int_numeral of_int_power)
    have "b * of_int n \<le> 1 * of_int n" using b1 nn(1) by (intro mult_right_mono)
    then show "b * of_int n \<le> 2 ^ 53" using nn(2) by simp
    moreover have "a * of_int n \<le> b * of_int n" using ab nn(1) by (intro mult_right_mono)
    ultimately show "a * of_int n \<le> 2 ^ 53" by simp
    show "0 \<le> a * of_int n" using a0 nn(1) by simp
    show "0 \<le> b * of_int n" using a0 ab nn(1) by simp
  qed
  have fa: "s = \<lfloor>a * of_int n\<rfloor> \<or> f64_mul (Finite a) (float64_of_int n) = Finite (of_int \<lceil>a * of_int n\<rceil>)"
    using round64_floor_or_ceiling [OF an(1,2) pq(3)] by (auto simp: pq(8) pq(1))
  have fb: "e = \<lfloor>b * of_int n\<rfloor> \<or> f64_mul (Finite b) (float64_of_int n) = Finite (of_int \<lceil>b * of_int n\<rceil>)"
    using round64_floor_or_ceiling [OF an(3,4) pq(4)] by (auto simp: pq(9) pq(2))
  have b1n: "b = 1 \<longrightarrow> e = n"
  proof
    assume "b = 1"
    then have "round64 (of_int n) = Finite q" using pq(4) by simp
    then have "q = of_int n" using round64_of_int [OF n0 n53] by simp
    then show "e = n" by (simp add: pq(9))
  qed
  have aeqb: "a = b \<longrightarrow> fst (ReadLocationData rt (Some d) u (Finite a) (Finite b)) = Returns (Some [], None)"
  proof
    assume "a = b"
    then have "s = e" by (simp add: s_def' e_def')
    then show "fst (ReadLocationData rt (Some d) u (Finite a) (Finite b)) = Returns (Some [], None)"
      by (simp add: res)
  qed
  have em: "xs = [] \<longrightarrow> fst (ReadLocationData rt (Some d) u (Finite a) (Finite b)) = Returns (Some [], None)"
    by (simp add: res)
  from res ord len srted perm fa fb b1n aeqb em
  show ?thesis by blast
qed


theorem read_returns_float_window_witness:
  "sorts_by_Timestamp toy_rt \<and> get_err store3 = None \<and> (0::rat) \<le> 1 / 2 \<and> (1::rat) / 2 \<le> 1
   \<and> int (length (decoded_sorted toy_rt store3 ''u1'')) \<le> 2 ^ 53
   \<and> percent_index toy_rt (Finite (1 / 2)) 3 = 1 \<and> percent_index toy_rt (Finite 1) 3 = 3
   \<and> fst (ReadLocationData toy_rt (Some store3) ''u1'' (Finite (1 / 2)) (Finite 1))
       = Returns (Some [sample 2, sample 3], None)"
proof -
  have i: "percent_index toy_rt (Finite (1 / 2)) 3 = 1" "percent_index toy_rt (Finite 1) 3 = 3"
    by (simp_all add: percent_index_def float64_of_int_def trunc_def f64_eval)
  have l: "int (length (decoded_sorted toy_rt store3 ''u1'')) \<le> 2 ^ 53" by (simp add: store3_decoded)
  from read_returns_float_window [where rt = toy_rt and d = store3 and u = "''u1''"
      and a = "1 / 2" and b = 1, OF toy_rt_sorts store3_ok _ _ _ l]
  show ?thesis by (simp add: toy_rt_sorts store3_ok store3_decoded i)
qed

text \<open>With a finite \<^verbatim>\<open>maxPercent\<close> that is not negative the slice expression is within
  bounds whatever \<^verbatim>\<open>minPercent\<close> is, NaN and the infinities included.\<close>

lemma read_safe_when_max_nonneg:
  assumes "sorts_by_Timestamp rt" "get_err d = None" "0 \<le> b"
    and "int (length (decoded_sorted rt d u)) \<le> 2 ^ 53"
  shows "fst (ReadLocationData rt (Some d) u minPercent (Finite b)) \<noteq> Panics"
proof -
  define n where "n = int (length (decoded_sorted rt d u))"
  define b1 where "b1 = (if 1 < b then 1 else b)"
  have b1: "0 \<le> b1" "b1 \<le> b1" "b1 \<le> 1" using assms(3) by (simp_all add: b1_def)
  have n0: "0 \<le> n" "n \<le> 2 ^ 53" using assms(4) by (simp_all add: n_def)
  from window_in_range [OF b1 n0, of rt]
  obtain q :: rat where q: "0 \<le> q" "percent_index rt (Finite b1) n = \<lfloor>q\<rfloor>" by blast
  have m: "(if f64_gt (Finite b) (Finite 1) then Finite 1 else Finite b) = Finite b1"
    by (simp add: f64_gt_def b1_def)
  have "0 \<le> fst (window_indices rt minPercent (Finite b) n)"
    unfolding window_indices_def Let_def m using q n0(1) by simp
  then show ?thesis
    by (simp add: read_ok_result [OF assms(1,2)] Let_def n_def)
qed

text \<open>
  Claim C2 at \<^verbatim>\<open>maxPercent = -1.0\<close>, for any \<^verbatim>\<open>minPercent\<close> and any entity with at least one
  decodable sample: \<^verbatim>\<open>maxPercent\<close> is only clamped from above, so the end index is
  \<open>-n\<close>; the start index, first raised to 0, is then lowered to the end index; the
  slice expression \<^verbatim>\<open>locationDataList[-n:-n]\<close> panics.
\<close>

theorem read_negative_max_panics:
  assumes "sorts_by_Timestamp rt" and "get_err d = None"
    and "decoded_sorted rt d u \<noteq> []"
    and "int (length (decoded_sorted rt d u)) \<le> 2 ^ 53"
  shows "window_indices rt minPercent (Finite (- 1)) (int (length (decoded_sorted rt d u)))
       = (- int (length (decoded_sorted rt d u)), - int (length (decoded_sorted rt d u)))
   \<and> fst (ReadLocationData rt (Some d) u minPercent (Finite (- 1))) = Panics"
proof -
  define n where "n = int (length (decoded_sorted rt d u))"
  have n1: "1 \<le> n" using assms(3) by (cases "decoded_sorted rt d u") (simp_all add: n_def)
  have n53: "n \<le> 2 ^ 53" using assms(4) by (simp add: n_def)
  have nf: "float64_of_int n = Finite (of_int n)"
    using n1 n53 by (simp add: float64_of_int_def round64_of_int)
  have "(of_int n :: rat) \<le> of_int (2 ^ 53)" using n53 by (subst of_int_le_iff)
  then have big: "(of_int n :: rat) < 2 ^ 1024" by simp
  have "round64 (- of_int n) = Finite (- of_int n)"
    using n1 big by (simp add: round64_def Let_def round_pos_of_int [OF n1 n53])
  then have m: "f64_mul (Finite (- 1)) (float64_of_int n) = Finite (- of_int n)"
    by (simp add: nf)
  have t: "trunc (- of_int n) = - n" using n1 by (simp add: trunc_def ceiling_def)
  have e: "percent_index rt (Finite (- 1)) n = - n"
    using n1 n53 by (simp add: percent_index_def m t)
  have c2: "\<not> f64_gt (Finite (- 1)) (Finite 1)" by (simp add: f64_gt_def)
  have w: "window_indices rt minPercent (Finite (- 1)) n = (- n, - n)"
    unfolding window_indices_def Let_def using n1 by (simp add: c2 e)
  with n1 have "fst (ReadLocationData rt (Some d) u minPercent (Finite (- 1))) = Panics"
    using assms(3) by (simp add: read_ok_result [OF assms(1,2)] Let_def n_def [symmetric])
  with w show ?thesis by (simp add: n_def)
qed

theorem read_negative_max_panics_witness:
  "sorts_by_Timestamp toy_rt \<and> get_err store3 = None
   \<and> decoded_sorted toy_rt store3 ''u1'' = [sample 1, sample 2, sample 3]
   \<and> window_indices toy_rt (Finite 0) (Finite (- 1)) 3 = (- 3, - 3)
   \<and> fst (ReadLocationData toy_rt (Some store3) ''u1'' (Finite 0) (Finite (- 1))) = Panics"
  using read_negative_max_panics [OF toy_rt_sorts store3_ok, of "''u1''" "Finite 0"]
  by (simp add: toy_rt_sorts store3_ok store3_decoded)

section \<open>The generator\<close>

text \<open>The float64 \<^verbatim>\<open>math.Pi\<close> is below \<open>\<pi>\<close>: the cosine of its half is positive, by
  the Taylor polynomial of degree 22 with the Lagrange remainder.\<close>

lemma cos_taylor_even:
  "(\<Sum>m<2 * k. cos_coeff m * x ^ m) = (\<Sum>j<k. (- 1) ^ j * x ^ (2 * j) / fact (2 * j))"
  by (induction k) (simp_all add: cos_coeff_def)

lemma sum12:
  "(\<Sum>j<12. (- 1) ^ j * (x::real) ^ (2 * j) / fact (2 * j)) =
     1 - x^2 / 2 + x^4 / 24 - x^6 / 720 + x^8 / 40320 - x^10 / 3628800
     + x^12 / 479001600 - x^14 / 87178291200 + x^16 / 20922789888000
     - x^18 / 6402373705728000 + x^20 / 2432902008176640000
     - x^22 / 1124000727777607680000"
  by (simp add: lessThan_nat_numeral fact_numeral)


lemma cos_half_pi64_pos: "0 < cos (884279719003555 / 562949953421312 :: real)"
proof -
  define x :: real where "x = 884279719003555 / 562949953421312"
  have x0: "0 < x" by (simp add: x_def)
  from Maclaurin_cos_expansion2 [OF x0, of 24]
  obtain t where t: "cos x = (\<Sum>m<24. cos_coeff m * x ^ m) + (cos (t + 1 / 2 * real 24 * pi) / fact 24) * x ^ 24"
    by auto
  have "- 1 \<le> cos (t + 1 / 2 * real 24 * pi)" by simp
  then have "- 1 / fact 24 * x ^ 24 \<le> (cos (t + 1 / 2 * real 24 * pi) / fact 24) * x ^ 24"
    using x0 by (intro mult_right_mono divide_right_mono) simp_all
  then have lower: "(\<Sum>m<24. cos_coeff m * x ^ m) - x ^ 24 / fact 24 \<le> cos x"
    unfolding t by simp
  have "(\<Sum>m<24. cos_coeff m * x ^ m) = (\<Sum>m<2 * 12. cos_coeff m * x ^ m)" by simp
  also have "\<dots> = (\<Sum>j<12. (- 1) ^ j * x ^ (2 * j) / fact (2 * j))" by (rule cos_taylor_even)
  also note sum12
  finally have s: "(\<Sum>m<24. cos_coeff m * x ^ m) =
     1 - x^2 / 2 + x^4 / 24 - x^6 / 720 + x^8 / 40320 - x^10 / 3628800
     + x^12 / 479001600 - x^14 / 87178291200 + x^16 / 20922789888000
     - x^18 / 6402373705728000 + x^20 / 2432902008176640000
     - x^22 / 1124000727777607680000" .
  have f: "(fact 24 :: real) = 620448401733239439360000" by (simp add: fact_numeral)
  have p: "0 < 1 - x^2 / 2 + x^4 / 24 - x^6 / 720 + x^8 / 40320 - x^10 / 3628800
     + x^12 / 479001600 - x^14 / 87178291200 + x^16 / 20922789888000
     - x^18 / 6402373705728000 + x^20 / 2432902008176640000
     - x^22 / 1124000727777607680000 - x ^ 24 / 620448401733239439360000"
    unfolding x_def by (simp add: power_divide)
  from lower have "1 - x^2 / 2 + x^4 / 24 - x^6 / 720 + x^8 / 40320 - x^10 / 3628800
     + x^12 / 479001600 - x^14 / 87178291200 + x^16 / 20922789888000
     - x^18 / 6402373705728000 + x^20 / 2432902008176640000
     - x^22 / 1124000727777607680000 - x ^ 24 / 620448401733239439360000 \<le> cos x"
    by (simp only: s f)
  with p have "0 < cos x" by (rule less_le_trans)
  then show ?thesis by (simp only: x_def)
qed

lemma pi64_less_pi: "884279719003555 / 281474976710656 < pi"
proof (rule ccontr)
  assume "\<not> 884279719003555 / 281474976710656 < pi"
  then have "pi / 2 \<le> 884279719003555 / 562949953421312" by simp
  moreover have "(884279719003555 / 562949953421312 :: real) \<le> pi"
    using pi_ge_two by simp
  ultimately have "cos (884279719003555 / 562949953421312) \<le> cos (pi / 2)"
    by (intro cos_monotone_0_pi_le) simp_all
  with cos_half_pi64_pos show False by simp
qed

lemma math_Pi_value: "math_Pi = Finite (884279719003555 / 281474976710656)"
  by (simp add: math_Pi_def f64_eval)

lemma maxDistancePerStep_value:
  "maxDistancePerStep = Finite (1152921504606847 / 288230376151711744)"
  by (simp add: maxDistancePerStep_def f64_eval)

lemma round64_scaled_unit:
  assumes "0 \<le> u" "u \<le> 1" "0 \<le> c" "round64 c = Finite c"
  shows "\<exists>v. round64 (u * c) = Finite v \<and> 0 \<le> v \<and> v \<le> c"
proof -
  have "0 \<le> u * c" "u * c \<le> c" using assms by (simp_all add: mult_left_le_one_le)
  from round64_nonneg_mono [OF this assms(4)] show ?thesis .
qed

lemma generateMovement_result:
  assumes "draws r (used r) = Finite u1" "0 \<le> u1" "u1 < 1"
    and "draws r (Suc (used r)) = Finite u2" "0 \<le> u2" "u2 < 1"
  shows "\<exists>angle magnitude.
      f64_mul (f64_mul (Finite u1) (Finite 2)) math_Pi = Finite angle
    \<and> 0 \<le> angle \<and> of_rat angle < 2 * pi
    \<and> f64_mul (Finite u2) maxDistancePerStep = Finite magnitude
    \<and> 0 \<le> magnitude \<and> magnitude \<le> 1152921504606847 / 288230376151711744
    \<and> generateMovement rt r =
        ((f64_mul (Finite magnitude) (math_Cos rt (Finite angle)),
          f64_mul (Finite magnitude) (math_Sin rt (Finite angle))),
         r\<lparr>used := used r + 2\<rparr>)"
proof -
  have two: "round64 2 = Finite 2" by (simp add: f64_eval)
  have u12: "0 \<le> u1" "u1 \<le> 1" using assms by simp_all
  from round64_scaled_unit [OF u12 _ two]
  obtain v where v: "round64 (u1 * 2) = Finite v" "0 \<le> v" "v \<le> 2" by auto
  have tp: "round64 (2 * (884279719003555 / 281474976710656)) = Finite (2 * (884279719003555 / 281474976710656))"
    by (simp add: f64_eval)
  have "0 \<le> v / 2" "v / 2 \<le> 1" using v by simp_all
  from round64_scaled_unit [OF this _ tp]
  obtain angle where a: "round64 (v * (884279719003555 / 281474976710656)) = Finite angle"
    "0 \<le> angle" "angle \<le> 2 * (884279719003555 / 281474976710656)" by auto
  have "(of_rat angle :: real) \<le> of_rat (2 * (884279719003555 / 281474976710656))"
    using a(3) by (subst of_rat_less_eq)
  also have "\<dots> = 2 * (884279719003555 / 281474976710656)"
    by (simp add: of_rat_mult of_rat_divide)
  also have "\<dots> < 2 * pi" using pi64_less_pi by simp
  finally have api: "of_rat angle < 2 * pi" .
  have cc: "round64 (1152921504606847 / 288230376151711744) = Finite (1152921504606847 / 288230376151711744)"
    by (simp add: f64_eval)
  have u22: "0 \<le> u2" "u2 \<le> 1" using assms by simp_all
  from round64_scaled_unit [OF u22 _ cc]
  obtain magnitude where m: "round64 (u2 * (1152921504606847 / 288230376151711744)) = Finite magnitude"
    "0 \<le> magnitude" "magnitude \<le> 1152921504606847 / 288230376151711744" by auto
  have ang: "f64_mul (f64_mul (Finite u1) (Finite 2)) math_Pi = Finite angle"
    by (simp only: f64_mul.simps v(1) math_Pi_value a(1))
  have mag: "f64_mul (Finite u2) maxDistancePerStep = Finite magnitude"
    by (simp only: f64_mul.simps maxDistancePerStep_value m(1))
  have "generateMovement rt r =
        ((f64_mul (Finite magnitude) (math_Cos rt (Finite angle)),
          f64_mul (Finite magnitude) (math_Sin rt (Finite angle))),
         r\<lparr>used := used r + 2\<rparr>)"
    unfolding generateMovement_def rng_Float64_def Let_def
    using ang mag by (simp add: assms(1,4))
  with ang mag a(2) api m(2,3) show ?thesis by blast
qed


text \<open>
  Claim C8. In the default case of the generator loop, with the two numbers the random
  source draws lying in \<open>[0, 1)\<close>: the angle is a finite float64 in \<open>[0, 2\<pi>)\<close>, the
  magnitude a finite float64 between 0 and \<^verbatim>\<open>maxDistancePerStep\<close> (the float64 nearest
  to 0.004); the sample has \<open>DeltaX = magnitude \<sdot> math.Cos(angle)\<close> and
  \<open>DeltaY = magnitude \<sdot> math.Sin(angle)\<close> (float64 products) and is stamped with the
  clock reading; exactly two numbers are drawn; and the sample is appended to the
  buffer, which is then written out and reset when it has reached the batch size.
\<close>

theorem generated_sample_is_polar_step:
  assumes "draws (rng st) (used (rng st)) = Finite u1" and "0 \<le> u1" and "u1 < 1"
    and "draws (rng st) (Suc (used (rng st))) = Finite u2" and "0 \<le> u2" and "u2 < 1"
  shows "\<exists>angle magnitude.
      f64_mul (f64_mul (Finite u1) (Finite 2)) math_Pi = Finite angle
    \<and> 0 \<le> angle \<and> of_rat angle < 2 * pi
    \<and> f64_mul (Finite u2) maxDistancePerStep = Finite magnitude
    \<and> 0 \<le> magnitude \<and> magnitude \<le> 1152921504606847 / 288230376151711744
    \<and> maxDistancePerStep = Finite (1152921504606847 / 288230376151711744)
    \<and> maxDistancePerStep = round64 (4 / 1000)
    \<and> rng (SimulateUserMovement_step rt userID Default now st) = (rng st)\<lparr>used := used (rng st) + 2\<rparr>
    \<and> (if Suc (length (dataBuffer st)) < batchSize
        then dataBuffer (SimulateUserMovement_step rt userID Default now st)
               = dataBuffer st @
                 [\<lparr>DeltaX = f64_mul (Finite magnitude) (math_Cos rt (Finite angle)),
                   DeltaY = f64_mul (Finite magnitude) (math_Sin rt (Finite angle)),
                   Timestamp = now\<rparr>]
             \<and> db_handle (SimulateUserMovement_step rt userID Default now st) = db_handle st
        else dataBuffer (SimulateUserMovement_step rt userID Default now st) = []
             \<and> db_handle (SimulateUserMovement_step rt userID Default now st)
               = snd (WriteLocationData rt (db_handle st) userID (dataBuffer st @
                 [\<lparr>DeltaX = f64_mul (Finite magnitude) (math_Cos rt (Finite angle)),
                   DeltaY = f64_mul (Finite magnitude) (math_Sin rt (Finite angle)),
                   Timestamp = now\<rparr>])))"
proof -
  from generateMovement_result [OF assms, of rt]
  obtain angle magnitude :: rat where g:
    "f64_mul (f64_mul (Finite u1) (Finite 2)) math_Pi = Finite angle"
    "0 \<le> angle" "of_rat angle < 2 * pi"
    "f64_mul (Finite u2) maxDistancePerStep = Finite magnitude"
    "0 \<le> magnitude" "magnitude \<le> 1152921504606847 / 288230376151711744"
    "generateMovement rt (rng st) =
        ((f64_mul (Finite magnitude) (math_Cos rt (Finite angle)),
          f64_mul (Finite magnitude) (math_Sin rt (Finite angle))),
         (rng st)\<lparr>used := used (rng st) + 2\<rparr>)"
    by blast
  have step: "rng (SimulateUserMovement_step rt userID Default now st) = (rng st)\<lparr>used := used (rng st) + 2\<rparr>
    \<and> (if Suc (length (dataBuffer st)) < batchSize
        then dataBuffer (SimulateUserMovement_step rt userID Default now st)
               = dataBuffer st @
                 [\<lparr>DeltaX = f64_mul (Finite magnitude) (math_Cos rt (Finite angle)),
                   DeltaY = f64_mul (Finite magnitude) (math_Sin rt (Finite angle)),
                   Timestamp = now\<rparr>]
             \<and> db_handle (SimulateUserMovement_step rt userID Default now st) = db_handle st
        else dataBuffer (SimulateUserMovement_step rt userID Default now st) = []
             \<and> db_handle (SimulateUserMovement_step rt userID Default now st)
               = snd (WriteLocationData rt (db_handle st) userID (dataBuffer st @
                 [\<lparr>DeltaX = f64_mul (Finite magnitude) (math_Cos rt (Finite angle)),
                   DeltaY = f64_mul (Finite magnitude) (math_Sin rt (Finite angle)),
                   Timestamp = now\<rparr>])))"
    by (simp add: SimulateUserMovement_step_def Let_def g(7) flush_def)
  from g(1-6) step maxDistancePerStep_value maxDistancePerStep_def show ?thesis by blast
qed

theorem generated_sample_is_polar_step_witness:
  "draws (rng fresh_generator) (used (rng fresh_generator)) = Finite (1 / 2)
   \<and> draws (rng fresh_generator) (Suc (used (rng fresh_generator))) = Finite (1 / 2)
   \<and> (0::rat) \<le> 1 / 2 \<and> (1::rat) / 2 < 1
   \<and> f64_mul (f64_mul (Finite (1 / 2)) (Finite 2)) math_Pi = Finite (884279719003555 / 281474976710656)
   \<and> f64_mul (Finite (1 / 2)) maxDistancePerStep = Finite (1152921504606847 / 576460752303423488)
   \<and> dataBuffer (SimulateUserMovement_step toy_rt ''u1'' Default 7 fresh_generator)
       = [\<lparr>DeltaX = Finite (1152921504606847 / 576460752303423488), DeltaY = Finite 0,
           Timestamp = 7\<rparr>]"
proof -
  have a: "f64_mul (f64_mul (Finite (1 / 2)) (Finite 2)) math_Pi = Finite (884279719003555 / 281474976710656)"
    by (simp add: math_Pi_value) (simp add: f64_eval)
  have m: "f64_mul (Finite (1 / 2)) maxDistancePerStep = Finite (1152921504606847 / 576460752303423488)"
    by (simp add: maxDistancePerStep_value) (simp add: f64_eval)
  have c: "round64 (1152921504606847 / 576460752303423488)
      = Finite (1152921504606847 / 576460752303423488)" "round64 0 = Finite 0"
    by (simp_all add: f64_eval)
  have g: "generateMovement toy_rt half_rng =
      ((Finite (1152921504606847 / 576460752303423488), Finite 0), half_rng\<lparr>used := 2\<rparr>)"
    unfolding generateMovement_def rng_Float64_def Let_def
    by (simp add: half_rng_def a m) (simp add: toy_rt_def c)
  have d: "dataBuffer (SimulateUserMovement_step toy_rt ''u1'' Default 7 fresh_generator)
       = [\<lparr>DeltaX = Finite (1152921504606847 / 576460752303423488), DeltaY = Finite 0,
           Timestamp = 7\<rparr>]"
    by (simp add: SimulateUserMovement_step_def Let_def fresh_generator_def g batchSize_def)
  have h: "draws (rng fresh_generator) (used (rng fresh_generator)) = Finite (1 / 2)"
    "draws (rng fresh_generator) (Suc (used (rng fresh_generator))) = Finite (1 / 2)"
    by (simp_all add: fresh_generator_def half_rng_def)
  from generated_sample_is_polar_step [OF h(1) _ _ h(2), of toy_rt "''u1''" 7] a m d h
  show ?thesis by simp
qed

end
